theory Spec2Isabelle
  imports Main "HOL-Library.Word" "HOL-Library.Monad_Syntax"
begin

unbundle bit_operations_syntax

section \<open>StackScope.h: constants and configuration\<close>

text \<open>
  The target is the ATmega328P built with avr-gcc: \<open>int\<close> and data pointers are 16 bits
  wide, so every \<open>uint16_t\<close> expression of the header (\<open>sp - 32\<close>, \<open>heap_end + 16\<close>,
  \<open>RAMEND - sp\<close>, the pointer comparisons) is unsigned arithmetic modulo \<open>2 ^ 16\<close>.
  Addresses and 16-bit values are \<open>16 word\<close>, bytes are \<open>8 word\<close>.
\<close>

type_synonym uint8_t = "8 word"
type_synonym uint16_t = "16 word"

definition STACKSCOPE_HEADER :: uint8_t where
  "STACKSCOPE_HEADER = 0xFE"

definition STACKSCOPE_HANDSHAKE :: uint8_t where
  "STACKSCOPE_HANDSHAKE = 0xA5"

definition STACKSCOPE_PAINT_PATTERN :: uint8_t where
  "STACKSCOPE_PAINT_PATTERN = 0xAA"

definition STACKSCOPE_FLAG_ALERT :: uint8_t where
  "STACKSCOPE_FLAG_ALERT = push_bit 0 1"

definition STACKSCOPE_FLAG_COLLISION :: uint8_t where
  "STACKSCOPE_FLAG_COLLISION = push_bit 1 1"

definition STACKSCOPE_FLAG_PEAK_NEW :: uint8_t where
  "STACKSCOPE_FLAG_PEAK_NEW = push_bit 2 1"

definition STACKSCOPE_FLAG_HEAP_ACTIVE :: uint8_t where
  "STACKSCOPE_FLAG_HEAP_ACTIVE = push_bit 3 1"

text \<open>
  What the header takes from outside itself is a parameter of the model:
  \<open>STACKSCOPE_RATE_LIMIT\<close> and \<open>STACKSCOPE_ALERT_THRESHOLD\<close> are overridable macros
  (\<open>#ifndef\<close>, defaults 256 and 50); \<open>RAMEND\<close> and the bit number \<open>UDRE0\<close> come from
  \<open>avr/io.h\<close>; \<open>heap_start\<close> is the address of the linker symbol \<open>__heap_start\<close>.
\<close>

record config =
  STACKSCOPE_RATE_LIMIT :: uint16_t
  STACKSCOPE_ALERT_THRESHOLD :: uint16_t
  RAMEND :: uint16_t
  heap_start :: uint16_t
  UDRE0 :: nat

text \<open>
  The default macros on an ATmega328P (\<open>RAMEND = 0x08FF\<close>, \<open>UDRE0 = 5\<close>), with the
  heap placed at \<open>0x0200\<close> as an example link.
\<close>

definition atmega328p :: config where
  "atmega328p = \<lparr>STACKSCOPE_RATE_LIMIT = 256, STACKSCOPE_ALERT_THRESHOLD = 50,
     RAMEND = 0x08FF, heap_start = 0x0200, UDRE0 = 5\<rparr>"

section \<open>Machine state\<close>

text \<open>
  The four \<open>static volatile\<close> globals of the monitor, the architecture state the header
  reads (the stack pointer register pair at \<open>0x3D/0x3E\<close>, the allocator's \<open>__brkval\<close>),
  the data memory the painter writes and the scanner reads, and the USART:
  \<open>UCSR0A\<close> is a volatile status register, modelled by the sequence of values its
  successive reads return together with the number of reads done so far; \<open>UDR0\<close> is the
  list of bytes written to the data register, oldest first.
  The globals and the registers are kept apart from \<open>mem\<close>: a paint range that overlaps
  the monitor's own variables or the I/O space is outside the model. Each operation
  runs to completion on the state it is given: an interrupt arriving in the middle
  of one is outside the model as well.
\<close>

record machine =
  stackscope_enabled :: uint8_t
  stackscope_call_counter :: uint16_t
  stackscope_peak_usage :: uint16_t
  stackscope_painted_end :: uint16_t
  SP :: uint16_t
  brkval :: uint16_t
  mem :: "uint16_t \<Rightarrow> uint8_t"
  UCSR0A :: "nat \<Rightarrow> uint8_t"
  reads :: nat
  UDR0 :: "uint8_t list"

section \<open>Region accessors\<close>

definition StackScope_GetSP :: "machine \<Rightarrow> uint16_t" where
  "StackScope_GetSP s = SP s"

definition StackScope_GetHeapUsage :: "config \<Rightarrow> machine \<Rightarrow> uint16_t" where
  "StackScope_GetHeapUsage c s =
     (if brkval s = 0 then 0 else brkval s - heap_start c)"

definition StackScope_GetHeapEnd :: "config \<Rightarrow> machine \<Rightarrow> uint16_t" where
  "StackScope_GetHeapEnd c s =
     (if brkval s = 0 then heap_start c else brkval s)"

section \<open>Stack painter\<close>

text \<open>The \<open>for\<close> loop of \<open>StackScope_PaintStack\<close>: \<open>p\<close> runs upward to \<open>paint_end\<close>.\<close>

function paint_loop ::
  "uint16_t \<Rightarrow> uint16_t \<Rightarrow> (uint16_t \<Rightarrow> uint8_t) \<Rightarrow> (uint16_t \<Rightarrow> uint8_t)" where
  "paint_loop p paint_end m =
     (if p < paint_end
      then paint_loop (p + 1) paint_end (m(p := STACKSCOPE_PAINT_PATTERN))
      else m)"
  by pat_completeness auto
termination
proof (relation "measure (\<lambda>(p, paint_end, m). unat paint_end - unat p)")
  show "wf (measure (\<lambda>(p, paint_end, m). unat paint_end - unat p))"
    by simp
next
  fix p paint_end :: uint16_t and m :: "uint16_t \<Rightarrow> uint8_t"
  assume lt: "p < paint_end"
  then have "unat p < unat paint_end"
    by (simp add: word_less_nat_alt)
  moreover have "unat paint_end < 2 ^ 16"
    using unsigned_less [of paint_end] by simp
  ultimately have "unat (p + 1) = unat p + 1"
    by (simp add: unat_word_ariths)
  with \<open>unat p < unat paint_end\<close> show "((p + 1, paint_end, m(p := STACKSCOPE_PAINT_PATTERN)), (p, paint_end, m))
      \<in> measure (\<lambda>(p, paint_end, m). unat paint_end - unat p)"
    by simp
qed

definition StackScope_PaintStack :: "config \<Rightarrow> machine \<Rightarrow> machine" where
  "StackScope_PaintStack c s =
     (let sp = StackScope_GetSP s;
          heap_end = StackScope_GetHeapEnd c s;
          paint_start = heap_end;
          paint_end = sp - 32
      in if paint_end > paint_start
         then s\<lparr>mem := paint_loop paint_start paint_end (mem s),
                stackscope_painted_end := paint_end\<rparr>
         else s)"

section \<open>High-water-mark scanner\<close>

text \<open>The \<open>while\<close> loop of \<open>StackScope_GetPaintedUsage\<close>; the result is the final \<open>scan\<close>.\<close>

function scan_loop ::
  "uint16_t \<Rightarrow> uint16_t \<Rightarrow> (uint16_t \<Rightarrow> uint8_t) \<Rightarrow> uint16_t" where
  "scan_loop scan heap_end m =
     (if scan > heap_end
      then (if m scan \<noteq> STACKSCOPE_PAINT_PATTERN then scan
            else scan_loop (scan - 1) heap_end m)
      else scan)"
  by pat_completeness auto
termination
proof (relation "measure (\<lambda>(scan, heap_end, m). unat scan)")
  show "wf (measure (\<lambda>(scan, heap_end, m). unat scan))"
    by simp
next
  fix scan heap_end :: uint16_t and m :: "uint16_t \<Rightarrow> uint8_t"
  assume "heap_end < scan"
  then have "scan \<noteq> 0"
    by (auto simp: word_less_nat_alt)
  then have "unat (scan - 1) < unat scan"
    by (simp add: unat_minus_one unat_gt_0)
  then show "((scan - 1, heap_end, m), (scan, heap_end, m))
      \<in> measure (\<lambda>(scan, heap_end, m). unat scan)"
    by simp
qed

definition StackScope_GetPaintedUsage :: "config \<Rightarrow> machine \<Rightarrow> uint16_t" where
  "StackScope_GetPaintedUsage c s =
     (if stackscope_painted_end s = 0
      then RAMEND c - StackScope_GetSP s
      else RAMEND c - scan_loop (stackscope_painted_end s) (StackScope_GetHeapEnd c s) (mem s))"

section \<open>Transport\<close>

text \<open>
  \<open>StackScope_WaitTX\<close> spins until a read of \<open>UCSR0A\<close> has bit \<open>UDRE0\<close> set. The loop
  need not end: not returning is \<open>None\<close>.
\<close>

partial_function (option) StackScope_WaitTX :: "config \<Rightarrow> machine \<Rightarrow> machine option" where
  "StackScope_WaitTX c s =
     (if (ucast (UCSR0A s (reads s)) AND (push_bit (UDRE0 c) 1 :: uint16_t)) = 0
      then StackScope_WaitTX c (s\<lparr>reads := reads s + 1\<rparr>)
      else Some (s\<lparr>reads := reads s + 1\<rparr>))"

definition StackScope_SendByte :: "config \<Rightarrow> uint8_t \<Rightarrow> machine \<Rightarrow> machine option" where
  "StackScope_SendByte c data s =
     do { s' \<leftarrow> StackScope_WaitTX c s;
          Some (s'\<lparr>UDR0 := UDR0 s' @ [data]\<rparr>) }"

definition StackScope_SendWord :: "config \<Rightarrow> uint16_t \<Rightarrow> machine \<Rightarrow> machine option" where
  "StackScope_SendWord c data s =
     do { s' \<leftarrow> StackScope_SendByte c (ucast (drop_bit 8 data)) s;
          StackScope_SendByte c (ucast (data AND 0xFF)) s' }"

section \<open>Handshake and peak operations\<close>

definition StackScope_Init :: "config \<Rightarrow> machine \<Rightarrow> machine" where
  "StackScope_Init c s =
     StackScope_PaintStack c
       (s\<lparr>stackscope_enabled := 0, stackscope_call_counter := 0, stackscope_peak_usage := 0\<rparr>)"

definition StackScope_IsHandshakeByte :: "uint8_t \<Rightarrow> uint8_t" where
  "StackScope_IsHandshakeByte byte = (if byte = STACKSCOPE_HANDSHAKE then 1 else 0)"

definition StackScope_TriggerHandshake :: "config \<Rightarrow> machine \<Rightarrow> machine" where
  "StackScope_TriggerHandshake c s = StackScope_PaintStack c (s\<lparr>stackscope_enabled := 1\<rparr>)"

definition StackScope_GetPeak :: "machine \<Rightarrow> uint16_t" where
  "StackScope_GetPeak s = stackscope_peak_usage s"

definition StackScope_ResetPeak :: "machine \<Rightarrow> machine" where
  "StackScope_ResetPeak s = s\<lparr>stackscope_peak_usage := 0\<rparr>"

section \<open>The periodic check\<close>

definition StackScope_Check :: "config \<Rightarrow> machine \<Rightarrow> machine option" where
  "StackScope_Check c s =
     (if stackscope_enabled s = 0 then Some s
      else
        let s1 = s\<lparr>stackscope_call_counter := stackscope_call_counter s + 1\<rparr> in
        if stackscope_call_counter s1 AND (STACKSCOPE_RATE_LIMIT c - 1) \<noteq> 0 then Some s1
        else
          let stack_usage = StackScope_GetPaintedUsage c s1;
              heap_usage = StackScope_GetHeapUsage c s1;
              heap_end = StackScope_GetHeapEnd c s1;
              sp = StackScope_GetSP s1;
              free_memory = (if sp > heap_end then sp - heap_end else 0);
              flags0 = (0 :: uint8_t);
              s2 = (if stack_usage > stackscope_peak_usage s1
                    then s1\<lparr>stackscope_peak_usage := stack_usage\<rparr> else s1);
              flags1 = (if stack_usage > stackscope_peak_usage s1
                        then flags0 OR STACKSCOPE_FLAG_PEAK_NEW else flags0);
              flags2 = (if free_memory < STACKSCOPE_ALERT_THRESHOLD c
                        then flags1 OR STACKSCOPE_FLAG_ALERT else flags1);
              flags3 = (if sp \<le> heap_end + 16
                        then flags2 OR STACKSCOPE_FLAG_COLLISION else flags2);
              flags = (if heap_usage > 0
                       then flags3 OR STACKSCOPE_FLAG_HEAP_ACTIVE else flags3)
          in do {
            s3 \<leftarrow> StackScope_SendByte c STACKSCOPE_HEADER s2;
            s4 \<leftarrow> StackScope_SendByte c flags s3;
            s5 \<leftarrow> StackScope_SendWord c stack_usage s4;
            s6 \<leftarrow> StackScope_SendWord c (stackscope_peak_usage s5) s5;
            s7 \<leftarrow> StackScope_SendWord c heap_usage s6;
            StackScope_SendWord c free_memory s7
          })"

section \<open>Call sequences\<close>

text \<open>
  The host's main loop, as a list of events: calls of the three public operations, and
  host code running in between, which moves the stack pointer, the heap break and
  the contents of memory at will. A run stops (\<open>None\<close>) when a call never returns.
\<close>

datatype event =
    Call_Check
  | Call_TriggerHandshake
  | Call_ResetPeak
  | Host uint16_t uint16_t "uint16_t \<Rightarrow> uint8_t"

fun step :: "config \<Rightarrow> event \<Rightarrow> machine \<Rightarrow> machine option" where
  "step c Call_Check s = StackScope_Check c s"
| "step c Call_TriggerHandshake s = Some (StackScope_TriggerHandshake c s)"
| "step c Call_ResetPeak s = Some (StackScope_ResetPeak s)"
| "step c (Host sp brk m) s = Some (s\<lparr>SP := sp, brkval := brk, mem := m\<rparr>)"

fun run :: "config \<Rightarrow> event list \<Rightarrow> machine \<Rightarrow> machine option" where
  "run c [] s = Some s"
| "run c (e # es) s = (case step c e s of None \<Rightarrow> None | Some s' \<Rightarrow> run c es s')"

text \<open>The number of events of a run that wrote to the transport.\<close>

fun frames_sent :: "config \<Rightarrow> event list \<Rightarrow> machine \<Rightarrow> nat option" where
  "frames_sent c [] s = Some 0"
| "frames_sent c (e # es) s =
     (case step c e s of None \<Rightarrow> None
      | Some s' \<Rightarrow>
          (case frames_sent c es s' of None \<Rightarrow> None
           | Some k \<Rightarrow> Some ((if UDR0 s' = UDR0 s then 0 else 1) + k)))"

text \<open>The transport always becomes ready again: after any number of reads of the status
  register, some later read has \<open>UDRE0\<close> set.\<close>

definition tx_live :: "config \<Rightarrow> machine \<Rightarrow> bool" where
  "tx_live c s = (\<forall>t. \<exists>t'. t \<le> t' \<and> bit (UCSR0A s t') (UDRE0 c))"

text \<open>A sampling invocation: the monitor is enabled and the incremented counter passes the
  rate-limit mask (the two early returns of \<open>StackScope_Check\<close> are not taken).\<close>

definition sampling :: "config \<Rightarrow> machine \<Rightarrow> bool" where
  "sampling c s =
     (stackscope_enabled s \<noteq> 0 \<and>
      (stackscope_call_counter s + 1) AND (STACKSCOPE_RATE_LIMIT c - 1) = 0)"

section \<open>Derived quantities of one sample\<close>

text \<open>
  Names for the locals of \<open>StackScope_Check\<close> on its sampling path, as functions of the
  state at entry, and for the transmission of a list of bytes by successive
  \<open>StackScope_SendByte\<close> calls. \<open>Check_sampling_eq\<close> below proves that the sampling path of
  \<open>StackScope_Check\<close> is exactly \<open>send_bytes\<close> of \<open>sample_frame\<close> from \<open>sample_state\<close>.
\<close>

fun send_bytes :: "config \<Rightarrow> uint8_t list \<Rightarrow> machine \<Rightarrow> machine option" where
  "send_bytes c [] s = Some s"
| "send_bytes c (d # ds) s = StackScope_SendByte c d s \<bind> send_bytes c ds"

definition sample_free :: "config \<Rightarrow> machine \<Rightarrow> uint16_t" where
  "sample_free c s =
     (if StackScope_GetSP s > StackScope_GetHeapEnd c s
      then StackScope_GetSP s - StackScope_GetHeapEnd c s else 0)"

definition sample_flags :: "config \<Rightarrow> machine \<Rightarrow> uint8_t" where
  "sample_flags c s =
     (let flags0 = (0 :: uint8_t);
          flags1 = (if StackScope_GetPaintedUsage c s > stackscope_peak_usage s
                    then flags0 OR STACKSCOPE_FLAG_PEAK_NEW else flags0);
          flags2 = (if sample_free c s < STACKSCOPE_ALERT_THRESHOLD c
                    then flags1 OR STACKSCOPE_FLAG_ALERT else flags1);
          flags3 = (if StackScope_GetSP s \<le> StackScope_GetHeapEnd c s + 16
                    then flags2 OR STACKSCOPE_FLAG_COLLISION else flags2)
      in if StackScope_GetHeapUsage c s > 0
         then flags3 OR STACKSCOPE_FLAG_HEAP_ACTIVE else flags3)"

definition sample_peak :: "config \<Rightarrow> machine \<Rightarrow> uint16_t" where
  "sample_peak c s =
     (if StackScope_GetPaintedUsage c s > stackscope_peak_usage s
      then StackScope_GetPaintedUsage c s else stackscope_peak_usage s)"

definition sample_state :: "config \<Rightarrow> machine \<Rightarrow> machine" where
  "sample_state c s =
     s\<lparr>stackscope_call_counter := stackscope_call_counter s + 1,
       stackscope_peak_usage := sample_peak c s\<rparr>"

definition sample_frame :: "config \<Rightarrow> machine \<Rightarrow> uint8_t list" where
  "sample_frame c s =
     [STACKSCOPE_HEADER, sample_flags c s,
      ucast (drop_bit 8 (StackScope_GetPaintedUsage c s)),
      ucast (StackScope_GetPaintedUsage c s AND 0xFF),
      ucast (drop_bit 8 (sample_peak c s)), ucast (sample_peak c s AND 0xFF),
      ucast (drop_bit 8 (StackScope_GetHeapUsage c s)),
      ucast (StackScope_GetHeapUsage c s AND 0xFF),
      ucast (drop_bit 8 (sample_free c s)), ucast (sample_free c s AND 0xFF)]"

section \<open>Example states\<close>

text \<open>
  Concrete machines on which the theorems below are exercised. In all of them the
  transport is ready at every read of the status register (\<open>0x20\<close> is bit 5).
  \<open>fresh_machine\<close>: just after reset, nothing allocated, a shallow stack.
  \<open>tight_machine\<close>: the heap break 16 bytes below the stack pointer.
  \<open>heap_past_paint\<close>: painted while the stack was deep (boundary \<open>0x0300\<close>), after
  which the stack unwound and the heap grew past the painted boundary to \<open>0x0400\<close>.
  \<open>due_machine\<close>: enabled, the counter one call before a multiple of 256, a deep stack,
  an allocated heap reaching up to 12 bytes below the stack pointer.
  \<open>scanned_machine\<close>: painted up to \<open>0x08D0\<close>, every byte still the sentinel except the
  one at \<open>0x08CD\<close>.
  \<open>empty_heap_due\<close>: enabled and due for a sample, nothing ever allocated.
  \<open>wrap_machine\<close>: enabled, the counter 128 calls before it wraps around.
\<close>

definition fresh_machine :: machine where
  "fresh_machine = \<lparr>stackscope_enabled = 0, stackscope_call_counter = 0,
     stackscope_peak_usage = 0, stackscope_painted_end = 0, SP = 0x08F0, brkval = 0,
     mem = (\<lambda>a. 0), UCSR0A = (\<lambda>t. 0x20), reads = 0, UDR0 = []\<rparr>"

definition tight_machine :: machine where
  "tight_machine = \<lparr>stackscope_enabled = 0, stackscope_call_counter = 0,
     stackscope_peak_usage = 0, stackscope_painted_end = 0, SP = 0x0410, brkval = 0x0400,
     mem = (\<lambda>a. 0), UCSR0A = (\<lambda>t. 0x20), reads = 0, UDR0 = []\<rparr>"

definition heap_past_paint :: machine where
  "heap_past_paint = \<lparr>stackscope_enabled = 1, stackscope_call_counter = 0,
     stackscope_peak_usage = 0, stackscope_painted_end = 0x0300, SP = 0x08F0, brkval = 0x0400,
     mem = (\<lambda>a. 0xAA), UCSR0A = (\<lambda>t. 0x20), reads = 0, UDR0 = []\<rparr>"

definition due_machine :: machine where
  "due_machine = \<lparr>stackscope_enabled = 1, stackscope_call_counter = 0x01FF,
     stackscope_peak_usage = 0x0010, stackscope_painted_end = 0, SP = 0x040C, brkval = 0x0400,
     mem = (\<lambda>a. 0), UCSR0A = (\<lambda>t. 0x20), reads = 0, UDR0 = []\<rparr>"

definition scanned_machine :: machine where
  "scanned_machine = \<lparr>stackscope_enabled = 1, stackscope_call_counter = 0,
     stackscope_peak_usage = 0, stackscope_painted_end = 0x08D0, SP = 0x08F0, brkval = 0,
     mem = (\<lambda>a. if a = 0x08CD then 0 else 0xAA), UCSR0A = (\<lambda>t. 0x20), reads = 0, UDR0 = []\<rparr>"

definition empty_heap_due :: machine where
  "empty_heap_due = \<lparr>stackscope_enabled = 1, stackscope_call_counter = 0x00FF,
     stackscope_peak_usage = 0, stackscope_painted_end = 0, SP = 0x08F0, brkval = 0,
     mem = (\<lambda>a. 0), UCSR0A = (\<lambda>t. 0x20), reads = 0, UDR0 = []\<rparr>"

definition wrap_machine :: machine where
  "wrap_machine = \<lparr>stackscope_enabled = 1, stackscope_call_counter = 0xFF80,
     stackscope_peak_usage = 0, stackscope_painted_end = 0, SP = 0x08F0, brkval = 0,
     mem = (\<lambda>a. 0), UCSR0A = (\<lambda>t. 0x20), reads = 0, UDR0 = []\<rparr>"

section \<open>Transport lemmas\<close>

lemma ready_bit:
  "((ucast (v :: uint8_t) AND (2 ^ n :: uint16_t)) = 0) \<longleftrightarrow> \<not> bit v n"
proof -
  have "bit v n \<Longrightarrow> n < 8" using bit_imp_le_length [of v n] by simp
  then show ?thesis
    by (auto simp: and_exp_eq_0_iff_not_bit bit_ucast_iff)
qed

lemma WaitTX_ready:
  "bit (UCSR0A s (reads s)) (UDRE0 c) \<Longrightarrow>
   StackScope_WaitTX c s = Some (s\<lparr>reads := reads s + 1\<rparr>)"
  by (subst StackScope_WaitTX.simps) (simp add: ready_bit)

lemma WaitTX_busy:
  "\<not> bit (UCSR0A s (reads s)) (UDRE0 c) \<Longrightarrow>
   StackScope_WaitTX c s = StackScope_WaitTX c (s\<lparr>reads := reads s + 1\<rparr>)"
  by (subst StackScope_WaitTX.simps) (simp add: ready_bit)

lemma WaitTX_reaches:
  "bit (UCSR0A s t') (UDRE0 c) \<Longrightarrow> reads s \<le> t' \<Longrightarrow>
   \<exists>n. StackScope_WaitTX c s = Some (s\<lparr>reads := n\<rparr>)"
proof (induction "t' - reads s" arbitrary: s)
  case 0
  then have "t' = reads s" by simp
  with 0 show ?case using WaitTX_ready [of s c] by blast
next
  case (Suc d)
  show ?case
  proof (cases "bit (UCSR0A s (reads s)) (UDRE0 c)")
    case True
    then show ?thesis using WaitTX_ready [of s c] by blast
  next
    case False
    let ?s = "s\<lparr>reads := reads s + 1\<rparr>"
    have "d = t' - reads ?s" using Suc.hyps(2) by simp
    moreover have "bit (UCSR0A ?s t') (UDRE0 c)" using Suc.prems(1) by simp
    moreover have "reads ?s \<le> t'" using Suc.hyps(2) by simp
    ultimately obtain n where "StackScope_WaitTX c ?s = Some (?s\<lparr>reads := n\<rparr>)"
      using Suc.hyps(1) by blast
    with False have "StackScope_WaitTX c s = Some (s\<lparr>reads := n\<rparr>)"
      using WaitTX_busy [of s c] by simp
    then show ?thesis by blast
  qed
qed

lemma WaitTX_live:
  "tx_live c s \<Longrightarrow> \<exists>n. StackScope_WaitTX c s = Some (s\<lparr>reads := n\<rparr>)"
  unfolding tx_live_def using WaitTX_reaches by blast

lemma WaitTX_Some:
  assumes ret: "StackScope_WaitTX c s = Some s'"
  shows "\<exists>n. s' = s\<lparr>reads := n\<rparr>"
proof (rule StackScope_WaitTX.raw_induct
    [where P = "\<lambda>c s s'. \<exists>n. s' = s\<lparr>reads := n\<rparr>", OF _ ret])
  fix f :: "config \<Rightarrow> machine \<Rightarrow> machine option" and c0 s0 r0
  assume IH: "\<And>c s y. f c s = Some y \<Longrightarrow> \<exists>n. y = s\<lparr>reads := n\<rparr>"
  assume eq: "(if ucast (UCSR0A s0 (reads s0)) AND (push_bit (UDRE0 c0) 1 :: uint16_t) = 0
      then f c0 (s0\<lparr>reads := reads s0 + 1\<rparr>)
      else Some (s0\<lparr>reads := reads s0 + 1\<rparr>)) = Some r0"
  show "\<exists>n. r0 = s0\<lparr>reads := n\<rparr>"
  proof (cases "ucast (UCSR0A s0 (reads s0)) AND (push_bit (UDRE0 c0) 1 :: uint16_t) = 0")
    case True
    with eq have "f c0 (s0\<lparr>reads := reads s0 + 1\<rparr>) = Some r0" by simp
    from IH [OF this] obtain n where "r0 = s0\<lparr>reads := reads s0 + 1\<rparr>\<lparr>reads := n\<rparr>" by blast
    then have "r0 = s0\<lparr>reads := n\<rparr>" by simp
    then show ?thesis by blast
  next
    case False
    with eq have "r0 = s0\<lparr>reads := reads s0 + 1\<rparr>" by simp
    then show ?thesis by blast
  qed
qed

lemma tx_live_upd [simp]:
  "tx_live c (s\<lparr>reads := n\<rparr>) = tx_live c s"
  "tx_live c (s\<lparr>UDR0 := u\<rparr>) = tx_live c s"
  "tx_live c (s\<lparr>stackscope_call_counter := k\<rparr>) = tx_live c s"
  "tx_live c (s\<lparr>stackscope_peak_usage := p\<rparr>) = tx_live c s"
  "tx_live c (s\<lparr>stackscope_enabled := e\<rparr>) = tx_live c s"
  "tx_live c (s\<lparr>stackscope_painted_end := a\<rparr>) = tx_live c s"
  "tx_live c (s\<lparr>SP := sp\<rparr>) = tx_live c s"
  "tx_live c (s\<lparr>brkval := b\<rparr>) = tx_live c s"
  "tx_live c (s\<lparr>mem := m\<rparr>) = tx_live c s"
  by (simp_all add: tx_live_def)

lemma SendByte_Some:
  "StackScope_SendByte c d s = Some s' \<Longrightarrow> \<exists>n. s' = s\<lparr>reads := n, UDR0 := UDR0 s @ [d]\<rparr>"
  by (auto simp: StackScope_SendByte_def bind_eq_Some_conv dest!: WaitTX_Some)

lemma SendByte_live:
  "tx_live c s \<Longrightarrow> \<exists>n. StackScope_SendByte c d s = Some (s\<lparr>reads := n, UDR0 := UDR0 s @ [d]\<rparr>)"
  using WaitTX_live [of c s] by (auto simp: StackScope_SendByte_def)

lemma send_bytes_Some:
  "send_bytes c ds s = Some s' \<Longrightarrow> \<exists>n. s' = s\<lparr>reads := n, UDR0 := UDR0 s @ ds\<rparr>"
proof (induction ds arbitrary: s)
  case Nil
  then have "s' = s\<lparr>reads := reads s, UDR0 := UDR0 s @ []\<rparr>" by simp
  then show ?case by blast
next
  case (Cons d ds)
  then obtain s1 where s1: "StackScope_SendByte c d s = Some s1" and r: "send_bytes c ds s1 = Some s'"
    by (auto simp: bind_eq_Some_conv)
  from SendByte_Some [OF s1] obtain n1 where "s1 = s\<lparr>reads := n1, UDR0 := UDR0 s @ [d]\<rparr>" by blast
  moreover from Cons.IH [OF r] obtain n where "s' = s1\<lparr>reads := n, UDR0 := UDR0 s1 @ ds\<rparr>" by blast
  ultimately have "s' = s\<lparr>reads := n, UDR0 := UDR0 s @ d # ds\<rparr>" by simp
  then show ?case by blast
qed

lemma send_bytes_live:
  "tx_live c s \<Longrightarrow> \<exists>n. send_bytes c ds s = Some (s\<lparr>reads := n, UDR0 := UDR0 s @ ds\<rparr>)"
proof (induction ds arbitrary: s)
  case Nil
  have "send_bytes c [] s = Some (s\<lparr>reads := reads s, UDR0 := UDR0 s @ []\<rparr>)" by simp
  then show ?case by blast
next
  case (Cons d ds)
  from SendByte_live [OF Cons.prems] obtain n1
    where s1: "StackScope_SendByte c d s = Some (s\<lparr>reads := n1, UDR0 := UDR0 s @ [d]\<rparr>)" by blast
  let ?s1 = "s\<lparr>reads := n1, UDR0 := UDR0 s @ [d]\<rparr>"
  have "tx_live c ?s1" using Cons.prems by simp
  from Cons.IH [OF this] obtain n
    where "send_bytes c ds ?s1 = Some (?s1\<lparr>reads := n, UDR0 := UDR0 ?s1 @ ds\<rparr>)" by blast
  with s1 have "send_bytes c (d # ds) s = Some (s\<lparr>reads := n, UDR0 := UDR0 s @ d # ds\<rparr>)" by simp
  then show ?case by blast
qed

lemma send_bytes_peak:
  "send_bytes c ds s \<bind> (\<lambda>s'. F (stackscope_peak_usage s') s')
   = send_bytes c ds s \<bind> F (stackscope_peak_usage s)"
  by (rule Option.bind_cong) (auto dest: send_bytes_Some)

lemma send_bytes_append:
  "send_bytes c (xs @ ys) s = send_bytes c xs s \<bind> send_bytes c ys"
proof (induction xs arbitrary: s)
  case Nil
  show ?case by simp
next
  case (Cons a xs)
  show ?case by (cases "StackScope_SendByte c a s") (simp_all add: Cons.IH)
qed

lemma send_bytes_nil_bind: "x \<bind> send_bytes c [] = x"
  by (cases x) simp_all

lemma SendWord_send_bytes:
  "StackScope_SendWord c w s = send_bytes c [ucast (drop_bit 8 w), ucast (w AND 0xFF)] s"
  unfolding StackScope_SendWord_def
  by (cases "StackScope_SendByte c (ucast (drop_bit 8 w)) s") (simp_all add: send_bytes_nil_bind)

lemma send_bytes_Cons_fun:
  "send_bytes c (d # ds) = (\<lambda>s. StackScope_SendByte c d s \<bind> send_bytes c ds)"
  by (rule ext) simp

lemma send_bytes_Nil_fun: "send_bytes c [] = Some"
  by (rule ext) simp

lemma send_chain:
  "StackScope_SendByte c a s \<bind> (\<lambda>s3. StackScope_SendByte c b s3 \<bind>
     (\<lambda>s4. StackScope_SendWord c u s4 \<bind>
     (\<lambda>s5. StackScope_SendWord c (stackscope_peak_usage s5) s5 \<bind>
     (\<lambda>s6. StackScope_SendWord c h s6 \<bind>
     (\<lambda>s7. StackScope_SendWord c f s7)))))
   = send_bytes c [a, b, ucast (drop_bit 8 u), ucast (u AND 0xFF),
       ucast (drop_bit 8 (stackscope_peak_usage s)), ucast (stackscope_peak_usage s AND 0xFF),
       ucast (drop_bit 8 h), ucast (h AND 0xFF),
       ucast (drop_bit 8 f), ucast (f AND 0xFF)] s"
proof -
  let ?xs = "[a, b, ucast (drop_bit 8 u), ucast (u AND 0xFF)]"
  let ?ys = "\<lambda>p. [ucast (drop_bit 8 p), ucast (p AND 0xFF),
       ucast (drop_bit 8 h), ucast (h AND 0xFF),
       ucast (drop_bit 8 f), ucast (f AND 0xFF)]"
  have "StackScope_SendByte c a s \<bind> (\<lambda>s3. StackScope_SendByte c b s3 \<bind>
     (\<lambda>s4. StackScope_SendWord c u s4 \<bind>
     (\<lambda>s5. StackScope_SendWord c (stackscope_peak_usage s5) s5 \<bind>
     (\<lambda>s6. StackScope_SendWord c h s6 \<bind>
     (\<lambda>s7. StackScope_SendWord c f s7)))))
     = send_bytes c ?xs s \<bind> (\<lambda>s5. send_bytes c (?ys (stackscope_peak_usage s5)) s5)"
    by (simp add: StackScope_SendWord_def send_bytes_Cons_fun send_bytes_Nil_fun)
  also have "\<dots> = send_bytes c ?xs s \<bind> send_bytes c (?ys (stackscope_peak_usage s))"
    by (rule send_bytes_peak [where F = "\<lambda>p. send_bytes c (?ys p)"])
  also have "\<dots> = send_bytes c (?xs @ ?ys (stackscope_peak_usage s)) s"
    by (simp only: send_bytes_append)
  finally show ?thesis by simp
qed

lemma accessors_counter [simp]:
  "StackScope_GetSP (s\<lparr>stackscope_call_counter := k\<rparr>) = StackScope_GetSP s"
  "StackScope_GetHeapEnd c (s\<lparr>stackscope_call_counter := k\<rparr>) = StackScope_GetHeapEnd c s"
  "StackScope_GetHeapUsage c (s\<lparr>stackscope_call_counter := k\<rparr>) = StackScope_GetHeapUsage c s"
  "StackScope_GetPaintedUsage c (s\<lparr>stackscope_call_counter := k\<rparr>) = StackScope_GetPaintedUsage c s"
  by (simp_all add: StackScope_GetSP_def StackScope_GetHeapEnd_def StackScope_GetHeapUsage_def
      StackScope_GetPaintedUsage_def)

lemma Check_disabled:
  "stackscope_enabled s = 0 \<Longrightarrow> StackScope_Check c s = Some s"
  by (simp add: StackScope_Check_def)

lemma Check_skipping:
  "stackscope_enabled s \<noteq> 0 \<Longrightarrow> \<not> sampling c s \<Longrightarrow>
   StackScope_Check c s = Some (s\<lparr>stackscope_call_counter := stackscope_call_counter s + 1\<rparr>)"
  by (simp add: StackScope_Check_def sampling_def)

lemma Check_sampling_eq:
  assumes "sampling c s"
  shows "StackScope_Check c s = send_bytes c (sample_frame c s) (sample_state c s)"
proof (cases "StackScope_GetPaintedUsage c s > stackscope_peak_usage s")
  case True
  with assms show ?thesis
    unfolding StackScope_Check_def sampling_def Let_def
    by (simp add: send_chain sample_frame_def sample_state_def sample_peak_def
        sample_flags_def sample_free_def)
next
  case False
  with assms show ?thesis
    unfolding StackScope_Check_def sampling_def Let_def
    by (simp add: send_chain sample_frame_def sample_state_def sample_peak_def
        sample_flags_def sample_free_def)
qed

lemma sample_flags_bits:
  "bit (sample_flags c s) 0 \<longleftrightarrow> sample_free c s < STACKSCOPE_ALERT_THRESHOLD c"
  "bit (sample_flags c s) 1 \<longleftrightarrow> StackScope_GetSP s \<le> StackScope_GetHeapEnd c s + 16"
  "bit (sample_flags c s) 2 \<longleftrightarrow> StackScope_GetPaintedUsage c s > stackscope_peak_usage s"
  "bit (sample_flags c s) 3 \<longleftrightarrow> StackScope_GetHeapUsage c s > 0"
  "4 \<le> i \<Longrightarrow> \<not> bit (sample_flags c s) i"
  unfolding sample_flags_def Let_def STACKSCOPE_FLAG_ALERT_def STACKSCOPE_FLAG_COLLISION_def
    STACKSCOPE_FLAG_PEAK_NEW_def STACKSCOPE_FLAG_HEAP_ACTIVE_def
  by (simp_all add: bit_or_iff bit_push_bit_iff bit_1_iff bit_2_iff del: push_bit_of_1)

section \<open>Painter and scanner lemmas\<close>

lemma unat_lt_65536: "unat (x :: uint16_t) < 65536"
  using unsigned_less [of x] by simp

lemma word16_succ_le: "(p::uint16_t) < e \<Longrightarrow> (p + 1 \<le> a) = (p < a)"
proof -
  assume "p < e"
  then have "unat p < unat e" by (simp add: word_less_nat_alt)
  with unat_lt_65536 [of e] have "unat (p + 1) = unat p + 1"
    by (simp add: unat_word_ariths)
  then show ?thesis
    by (simp add: word_le_nat_alt word_less_nat_alt Suc_le_eq)
qed

lemma word16_pred: "(h::uint16_t) < x \<Longrightarrow> unat (x - 1) = unat x - 1 \<and> 0 < unat x"
proof -
  assume "h < x"
  then have "x \<noteq> 0" by (auto simp: word_less_nat_alt)
  then show ?thesis by (simp add: unat_minus_one unat_gt_0)
qed

lemma word16_pred_lt: "(h::uint16_t) < x \<Longrightarrow> (x - 1 < a) = (x \<le> a)"
  using word16_pred [of h x] by (auto simp: word_le_nat_alt word_less_nat_alt)

lemma word16_pred_ge: "(h::uint16_t) < x \<Longrightarrow> h \<le> x - 1"
  using word16_pred [of h x] by (auto simp: word_le_nat_alt word_less_nat_alt)

declare paint_loop.simps [simp del] scan_loop.simps [simp del]

lemma paint_loop_eq:
  "paint_loop p e m = (\<lambda>a. if p \<le> a \<and> a < e then STACKSCOPE_PAINT_PATTERN else m a)"
proof (induction p e m rule: paint_loop.induct)
  case (1 p e m)
  show ?case
  proof (cases "p < e")
    case True
    have "paint_loop p e m = paint_loop (p + 1) e (m(p := STACKSCOPE_PAINT_PATTERN))"
      using True by (subst paint_loop.simps) simp
    also have "\<dots> = (\<lambda>a. if p + 1 \<le> a \<and> a < e then STACKSCOPE_PAINT_PATTERN
        else (m(p := STACKSCOPE_PAINT_PATTERN)) a)"
      using 1 [OF True] .
    also have "\<dots> = (\<lambda>a. if p \<le> a \<and> a < e then STACKSCOPE_PAINT_PATTERN else m a)"
      using True by (auto simp: fun_eq_iff word16_succ_le)
    finally show ?thesis .
  next
    case False
    then have "\<And>a. \<not> (p \<le> a \<and> a < e)" by auto
    moreover have "paint_loop p e m = m" using False by (subst paint_loop.simps) simp
    ultimately show ?thesis by (auto simp: fun_eq_iff)
  qed
qed


lemma scan_loop_spec:
  "scan_loop scan h m = stop \<Longrightarrow>
     stop \<le> scan \<and> (\<forall>a. stop < a \<and> a \<le> scan \<longrightarrow> m a = STACKSCOPE_PAINT_PATTERN) \<and>
     (if scan \<le> h then stop = scan
      else h \<le> stop \<and> (stop = h \<or> m stop \<noteq> STACKSCOPE_PAINT_PATTERN))"
proof (induction scan h m arbitrary: stop rule: scan_loop.induct)
  case (1 scan h m)
  show ?case
  proof (cases "h < scan")
    case False
    then have "scan_loop scan h m = scan" by (subst scan_loop.simps) simp
    with False "1.prems" show ?thesis by auto
  next
    case above: True
    show ?thesis
    proof (cases "m scan \<noteq> STACKSCOPE_PAINT_PATTERN")
      case True
      with above have "scan_loop scan h m = scan" by (subst scan_loop.simps) simp
      with above True "1.prems" show ?thesis by auto
    next
      case False
      with above have eq: "scan_loop scan h m = scan_loop (scan - 1) h m"
        by (subst scan_loop.simps) simp
      with "1.prems" have r: "scan_loop (scan - 1) h m = stop" by simp
      note IH = "1.IH" [OF above _ r]
      have ih: "stop \<le> scan - 1"
        "\<forall>a. stop < a \<and> a \<le> scan - 1 \<longrightarrow> m a = STACKSCOPE_PAINT_PATTERN"
        "if scan - 1 \<le> h then stop = scan - 1
         else h \<le> stop \<and> (stop = h \<or> m stop \<noteq> STACKSCOPE_PAINT_PATTERN)"
        using IH False by auto
      have p: "unat (scan - 1) = unat scan - 1" "0 < unat scan"
        using word16_pred [OF above] by auto
      have le: "stop \<le> scan" using ih(1) p by (simp add: word_le_nat_alt)
      have all: "\<forall>a. stop < a \<and> a \<le> scan \<longrightarrow> m a = STACKSCOPE_PAINT_PATTERN"
      proof (intro allI impI)
        fix a assume a: "stop < a \<and> a \<le> scan"
        show "m a = STACKSCOPE_PAINT_PATTERN"
        proof (cases "a = scan")
          case True with False show ?thesis by simp
        next
          case False
          with a have "a < scan" by auto
          then have "a \<le> scan - 1" using p by (simp add: word_le_nat_alt word_less_nat_alt)
          with a ih(2) show ?thesis by blast
        qed
      qed
      have "h \<le> scan - 1" by (rule word16_pred_ge [OF above])
      then have "h \<le> stop \<and> (stop = h \<or> m stop \<noteq> STACKSCOPE_PAINT_PATTERN)"
        using ih(3) by (auto split: if_splits)
      with le all above show ?thesis by auto
    qed
  qed
qed

lemma PaintStack_eq:
  "StackScope_PaintStack c s =
     (if StackScope_GetHeapEnd c s < SP s - 32
      then s\<lparr>mem := (\<lambda>a. if StackScope_GetHeapEnd c s \<le> a \<and> a < SP s - 32
                          then STACKSCOPE_PAINT_PATTERN else mem s a),
             stackscope_painted_end := SP s - 32\<rparr>
      else s)"
  by (simp add: StackScope_PaintStack_def Let_def StackScope_GetSP_def paint_loop_eq)

section \<open>The stack painter (C6)\<close>

text \<open>
  C6. \<open>StackScope_PaintStack\<close>, with \<open>paint_start\<close> the heap break and \<open>paint_end\<close> the stack
  pointer minus 32 (both 16-bit; for a stack pointer below 32 the subtraction wraps
  around, as it does in the code; from 32 upward it is the subtraction of the natural
  numbers): if \<open>paint_end \<le> paint_start\<close> the state is returned as it
  is (no memory written, the painted boundary left alone); otherwise the only fields
  that change are the memory and the painted boundary, the boundary becomes \<open>paint_end\<close>,
  and a memory cell holds the sentinel if its address lies in \<open>[paint_start, paint_end)\<close> and
  its old value otherwise, so nothing at or above \<open>paint_end\<close> is written.
\<close>

theorem C6_paint_region:
  "(StackScope_GetSP s - 32 \<le> StackScope_GetHeapEnd c s \<longrightarrow> StackScope_PaintStack c s = s) \<and>
   (StackScope_GetHeapEnd c s < StackScope_GetSP s - 32 \<longrightarrow>
      StackScope_PaintStack c s =
        s\<lparr>mem := (\<lambda>a. if StackScope_GetHeapEnd c s \<le> a \<and> a < StackScope_GetSP s - 32
                          then STACKSCOPE_PAINT_PATTERN else mem s a),
          stackscope_painted_end := StackScope_GetSP s - 32\<rparr>) \<and>
   (32 \<le> unat (StackScope_GetSP s) \<longrightarrow>
      unat (StackScope_GetSP s - 32) = unat (StackScope_GetSP s) - 32)"
proof (intro conjI impI)
  show "StackScope_PaintStack c s = s" if "StackScope_GetSP s - 32 \<le> StackScope_GetHeapEnd c s"
    using that by (auto simp: PaintStack_eq StackScope_GetSP_def)
  show "StackScope_PaintStack c s =
        s\<lparr>mem := (\<lambda>a. if StackScope_GetHeapEnd c s \<le> a \<and> a < StackScope_GetSP s - 32
                          then STACKSCOPE_PAINT_PATTERN else mem s a),
          stackscope_painted_end := StackScope_GetSP s - 32\<rparr>"
    if "StackScope_GetHeapEnd c s < StackScope_GetSP s - 32"
    using that by (simp add: PaintStack_eq StackScope_GetSP_def)
  show "unat (StackScope_GetSP s - 32) = unat (StackScope_GetSP s) - 32"
    if "32 \<le> unat (StackScope_GetSP s)"
  proof -
    from that have "(32 :: uint16_t) \<le> StackScope_GetSP s" by (simp add: word_le_nat_alt)
    then show ?thesis by (simp add: unat_sub)
  qed
qed

theorem C6_paint_region_witness:
  "StackScope_GetHeapEnd atmega328p fresh_machine < StackScope_GetSP fresh_machine - 32 \<and>
   32 \<le> unat (StackScope_GetSP fresh_machine) \<and>
   unat (StackScope_GetSP fresh_machine - 32) = 0x08D0 \<and>
   stackscope_painted_end (StackScope_PaintStack atmega328p fresh_machine) = 0x08D0 \<and>
   mem (StackScope_PaintStack atmega328p fresh_machine) 0x0200 = 0xAA \<and>
   mem (StackScope_PaintStack atmega328p fresh_machine) 0x08CF = 0xAA \<and>
   mem (StackScope_PaintStack atmega328p fresh_machine) 0x08D0 = 0 \<and>
   mem (StackScope_PaintStack atmega328p fresh_machine) 0x01FF = 0 \<and>
   StackScope_GetSP tight_machine - 32 \<le> StackScope_GetHeapEnd atmega328p tight_machine \<and>
   StackScope_PaintStack atmega328p tight_machine = tight_machine"
proof -
  have a: "StackScope_GetHeapEnd atmega328p fresh_machine = 0x0200"
    "StackScope_GetSP fresh_machine - 32 = 0x08D0"
    "StackScope_GetHeapEnd atmega328p tight_machine = 0x0400"
    "StackScope_GetSP tight_machine - 32 = 0x03F0"
    by (simp_all add: StackScope_GetHeapEnd_def StackScope_GetSP_def atmega328p_def
        fresh_machine_def tight_machine_def)
  have b: "mem fresh_machine = (\<lambda>a. 0)"
    by (simp add: fresh_machine_def)
  have c: "unat (StackScope_GetSP fresh_machine) = 0x08F0"
    by (simp add: StackScope_GetSP_def fresh_machine_def)
  from C6_paint_region [of fresh_machine atmega328p] C6_paint_region [of tight_machine atmega328p]
  show ?thesis
    by (simp add: a b c STACKSCOPE_PAINT_PATTERN_def)
qed

section \<open>The high-water-mark scanner (C1)\<close>

text \<open>
  C1, as stated, fails. The claim has the scan stop at the first address whose byte is not
  the sentinel, or else at the heap boundary. In \<open>heap_past_paint\<close> the painted boundary
  \<open>0x0300\<close> is not zero and already lies below the heap break \<open>0x0400\<close>: the loop guard
  \<open>scan > heap_end\<close> is false at once, no byte is read, and the usage returned is
  \<open>RAMEND - 0x0300\<close>. The stop address \<open>0x0300\<close> holds the sentinel and is not the heap
  boundary.
\<close>

theorem C1_counterexample:
  "stackscope_painted_end heap_past_paint \<noteq> 0 \<and>
   StackScope_GetPaintedUsage atmega328p heap_past_paint = RAMEND atmega328p - 0x0300 \<and>
   mem heap_past_paint 0x0300 = STACKSCOPE_PAINT_PATTERN \<and>
   StackScope_GetHeapEnd atmega328p heap_past_paint = 0x0400 \<and>
   \<not> (mem heap_past_paint
          (RAMEND atmega328p - StackScope_GetPaintedUsage atmega328p heap_past_paint)
          \<noteq> STACKSCOPE_PAINT_PATTERN \<or>
        RAMEND atmega328p - StackScope_GetPaintedUsage atmega328p heap_past_paint
          = StackScope_GetHeapEnd atmega328p heap_past_paint)"
  by (simp add: StackScope_GetPaintedUsage_def StackScope_GetHeapEnd_def heap_past_paint_def
      atmega328p_def STACKSCOPE_PAINT_PATTERN_def scan_loop.simps)

text \<open>
  C1, amended. If the painted boundary is 0 the usage is \<open>RAMEND\<close> minus the stack pointer.
  Otherwise the usage is \<open>RAMEND\<close> minus a stop address at or below the painted boundary
  such that every address above it, up to and including the boundary, holds the sentinel.
  If the boundary is at or below the heap break, no byte is examined and the stop address
  is the boundary itself; if it is above the heap break, the stop address is not below the
  heap break, and it is either the heap break or an address whose byte is not the
  sentinel (the first such address, scanning downward). All arithmetic is 16-bit.
\<close>

theorem C1_scan_usage:
  "(stackscope_painted_end s = 0 \<longrightarrow>
      StackScope_GetPaintedUsage c s = RAMEND c - StackScope_GetSP s) \<and>
   (stackscope_painted_end s \<noteq> 0 \<longrightarrow>
      (\<exists>stop. StackScope_GetPaintedUsage c s = RAMEND c - stop \<and>
         stop \<le> stackscope_painted_end s \<and>
         (\<forall>a. stop < a \<and> a \<le> stackscope_painted_end s \<longrightarrow>
              mem s a = STACKSCOPE_PAINT_PATTERN) \<and>
         (if stackscope_painted_end s \<le> StackScope_GetHeapEnd c s
          then stop = stackscope_painted_end s
          else StackScope_GetHeapEnd c s \<le> stop \<and>
               (stop = StackScope_GetHeapEnd c s \<or> mem s stop \<noteq> STACKSCOPE_PAINT_PATTERN))))"
  using scan_loop_spec [OF refl, of "stackscope_painted_end s" "StackScope_GetHeapEnd c s" "mem s"]
  by (auto simp: StackScope_GetPaintedUsage_def)

theorem C1_scan_usage_witness:
  "stackscope_painted_end fresh_machine = 0 \<and>
   StackScope_GetPaintedUsage atmega328p fresh_machine = 0x000F \<and>
   stackscope_painted_end scanned_machine \<noteq> 0 \<and>
   \<not> stackscope_painted_end scanned_machine \<le> StackScope_GetHeapEnd atmega328p scanned_machine \<and>
   StackScope_GetPaintedUsage atmega328p scanned_machine = 0x08FF - 0x08CD \<and>
   (\<exists>stop. StackScope_GetPaintedUsage atmega328p scanned_machine = RAMEND atmega328p - stop \<and>
      stop \<le> stackscope_painted_end scanned_machine \<and>
      (\<forall>a. stop < a \<and> a \<le> stackscope_painted_end scanned_machine \<longrightarrow>
           mem scanned_machine a = STACKSCOPE_PAINT_PATTERN) \<and>
      StackScope_GetHeapEnd atmega328p scanned_machine \<le> stop \<and>
      (stop = StackScope_GetHeapEnd atmega328p scanned_machine \<or>
       mem scanned_machine stop \<noteq> STACKSCOPE_PAINT_PATTERN))"
proof -
  have a: "stackscope_painted_end fresh_machine = 0"
    "stackscope_painted_end scanned_machine \<noteq> 0"
    "\<not> stackscope_painted_end scanned_machine \<le> StackScope_GetHeapEnd atmega328p scanned_machine"
    by (simp_all add: fresh_machine_def scanned_machine_def StackScope_GetHeapEnd_def atmega328p_def)
  have b: "StackScope_GetPaintedUsage atmega328p scanned_machine = 0x08FF - 0x08CD"
    by (simp add: StackScope_GetPaintedUsage_def StackScope_GetHeapEnd_def scanned_machine_def
      atmega328p_def STACKSCOPE_PAINT_PATTERN_def scan_loop.simps)
  have c: "RAMEND atmega328p - StackScope_GetSP fresh_machine = 0x000F"
    by (simp add: atmega328p_def fresh_machine_def StackScope_GetSP_def)
  from C1_scan_usage [of fresh_machine atmega328p] C1_scan_usage [of scanned_machine atmega328p]
  show ?thesis using a b c by simp
qed


section \<open>What one call of the check does\<close>

lemma Check_Some:
  assumes "StackScope_Check c s = Some s'"
  shows "if stackscope_enabled s = 0 then s' = s
         else if \<not> sampling c s
         then s' = s\<lparr>stackscope_call_counter := stackscope_call_counter s + 1\<rparr>
         else \<exists>n. s' = (sample_state c s)\<lparr>reads := n, UDR0 := UDR0 s @ sample_frame c s\<rparr>"
proof (cases "stackscope_enabled s = 0")
  case True
  with assms show ?thesis by (simp add: Check_disabled)
next
  case en: False
  show ?thesis
  proof (cases "sampling c s")
    case False
    with en assms show ?thesis by (simp add: Check_skipping)
  next
    case True
    with assms have "send_bytes c (sample_frame c s) (sample_state c s) = Some s'"
      by (simp add: Check_sampling_eq)
    from send_bytes_Some [OF this] obtain n
      where "s' = (sample_state c s)\<lparr>reads := n,
        UDR0 := UDR0 (sample_state c s) @ sample_frame c s\<rparr>" by blast
    then have "s' = (sample_state c s)\<lparr>reads := n, UDR0 := UDR0 s @ sample_frame c s\<rparr>"
      by (simp add: sample_state_def)
    with en True show ?thesis by auto
  qed
qed

lemma Check_live:
  assumes "tx_live c s"
  shows "\<exists>s'. StackScope_Check c s = Some s'"
proof (cases "stackscope_enabled s = 0")
  case True
  then show ?thesis by (simp add: Check_disabled)
next
  case en: False
  show ?thesis
  proof (cases "sampling c s")
    case False
    with en show ?thesis by (simp add: Check_skipping)
  next
    case True
    have "tx_live c (sample_state c s)" using assms by (simp add: sample_state_def)
    from send_bytes_live [OF this, of "sample_frame c s"] True show ?thesis
      by (auto simp: Check_sampling_eq)
  qed
qed

lemma be16:
  "unat (w :: uint16_t) = 256 * unat (ucast (drop_bit 8 w) :: uint8_t) + unat (ucast (w AND 0xFF) :: uint8_t)"
proof -
  have m: "(0xFF :: uint16_t) = mask 8" by (simp add: mask_eq_exp_minus_1)
  have "unat (w AND mask 8) = take_bit 8 (unat w)"
    unfolding take_bit_eq_mask [symmetric] by (rule unsigned_take_bit_eq)
  then have lo: "unat (ucast (w AND 0xFF) :: uint8_t) = unat w mod 256"
    unfolding m unsigned_ucast_eq by (simp add: take_bit_eq_mod)
  have "unat w < 65536" by (rule unat_lt_65536)
  then have "unat w div 256 < 256" by simp
  moreover have "unat (drop_bit 8 w) = drop_bit 8 (unat w)"
    by (rule unat_drop_bit_eq)
  ultimately have hi: "unat (ucast (drop_bit 8 w) :: uint8_t) = unat w div 256"
    unfolding unsigned_ucast_eq by (simp add: drop_bit_eq_div take_bit_eq_mod)
  show ?thesis unfolding lo hi by simp
qed

lemma Check_sampled:
  assumes "sampling c s" and "StackScope_Check c s = Some s'"
  shows "UDR0 s' = UDR0 s @ sample_frame c s"
    and "stackscope_peak_usage s' = sample_peak c s"
    and "stackscope_call_counter s' = stackscope_call_counter s + 1"
proof -
  from assms have en: "stackscope_enabled s \<noteq> 0" by (simp add: sampling_def)
  from Check_Some [OF assms(2)] en assms(1) obtain n
    where "s' = (sample_state c s)\<lparr>reads := n, UDR0 := UDR0 s @ sample_frame c s\<rparr>" by auto
  then show "UDR0 s' = UDR0 s @ sample_frame c s"
    and "stackscope_peak_usage s' = sample_peak c s"
    and "stackscope_call_counter s' = stackscope_call_counter s + 1"
    by (simp_all add: sample_state_def)
qed

lemma tx_live_always:
  "(\<And>t. bit (UCSR0A s t) (UDRE0 c)) \<Longrightarrow> tx_live c s"
  unfolding tx_live_def by blast

lemma due_machine_live: "tx_live atmega328p due_machine"
  by (rule tx_live_always) (simp add: atmega328p_def due_machine_def)

lemma due_machine_facts:
  "sampling atmega328p due_machine"
  "StackScope_GetPaintedUsage atmega328p due_machine = 0x04F3"
  "StackScope_GetHeapUsage atmega328p due_machine = 0x0200"
  "StackScope_GetHeapEnd atmega328p due_machine = 0x0400"
  "StackScope_GetSP due_machine = 0x040C"
  "sample_frame atmega328p due_machine = [0xFE, 0x0F, 0x04, 0xF3, 0x04, 0xF3, 0x02, 0x00, 0x00, 0x0C]"
  by (simp_all add: sampling_def atmega328p_def due_machine_def sample_frame_def
      sample_flags_def sample_free_def sample_peak_def StackScope_GetPaintedUsage_def
      StackScope_GetHeapUsage_def StackScope_GetHeapEnd_def StackScope_GetSP_def
      STACKSCOPE_HEADER_def STACKSCOPE_FLAG_ALERT_def STACKSCOPE_FLAG_COLLISION_def
      STACKSCOPE_FLAG_PEAK_NEW_def STACKSCOPE_FLAG_HEAP_ACTIVE_def)

lemma due_machine_check:
  "\<exists>s'. StackScope_Check atmega328p due_machine = Some s' \<and>
     UDR0 s' = [0xFE, 0x0F, 0x04, 0xF3, 0x04, 0xF3, 0x02, 0x00, 0x00, 0x0C] \<and>
     stackscope_peak_usage s' = 0x04F3 \<and> stackscope_call_counter s' = 0x0200"
proof -
  from Check_live [OF due_machine_live] obtain s'
    where ret: "StackScope_Check atmega328p due_machine = Some s'" by blast
  note r = Check_sampled [OF due_machine_facts(1) ret]
  have "UDR0 s' = [0xFE, 0x0F, 0x04, 0xF3, 0x04, 0xF3, 0x02, 0x00, 0x00, 0x0C]"
    using r(1) by (simp add: due_machine_facts(6)) (simp add: due_machine_def)
  moreover have "stackscope_peak_usage s' = 0x04F3"
    using r(2) by (simp add: sample_peak_def due_machine_facts(2)) (simp add: due_machine_def)
  moreover have "stackscope_call_counter s' = 0x0200"
    using r(3) by (simp add: due_machine_def)
  ultimately show ?thesis using ret by blast
qed

section \<open>The telemetry frame (C7)\<close>

text \<open>
  C7. On a sampling invocation that returns, \<open>StackScope_Check\<close> appends exactly ten bytes to
  the transport: \<open>0xFE\<close>, the flags byte, then the stack usage, the peak (as stored after
  this sample's update), the heap usage and the free memory, each as two bytes with the
  most significant first (the value is 256 times the first byte plus the second). The
  call returns whenever the transport keeps becoming ready; a transport that stalls
  forever blocks the call in \<open>StackScope_WaitTX\<close>.
\<close>

theorem C7_frame_layout:
  assumes "sampling c s"
  shows "(tx_live c s \<longrightarrow> (\<exists>s'. StackScope_Check c s = Some s')) \<and>
    (\<forall>s'. StackScope_Check c s = Some s' \<longrightarrow>
      (\<exists>flags h1 l1 h2 l2 h3 l3 h4 l4.
         UDR0 s' = UDR0 s @ [0xFE, flags, h1, l1, h2, l2, h3, l3, h4, l4] \<and>
         unat (StackScope_GetPaintedUsage c s) = 256 * unat h1 + unat l1 \<and>
         unat (stackscope_peak_usage s') = 256 * unat h2 + unat l2 \<and>
         unat (StackScope_GetHeapUsage c s) = 256 * unat h3 + unat l3 \<and>
         unat (if StackScope_GetSP s > StackScope_GetHeapEnd c s
               then StackScope_GetSP s - StackScope_GetHeapEnd c s else 0)
           = 256 * unat h4 + unat l4))"
proof (intro conjI allI impI)
  assume "tx_live c s"
  then show "\<exists>s'. StackScope_Check c s = Some s'" by (rule Check_live)
next
  fix s' assume ret: "StackScope_Check c s = Some s'"
  note r = Check_sampled [OF assms ret]
  let ?u = "StackScope_GetPaintedUsage c s" and ?p = "sample_peak c s"
  let ?h = "StackScope_GetHeapUsage c s" and ?f = "sample_free c s"
  have "UDR0 s' = UDR0 s @ [0xFE, sample_flags c s,
      ucast (drop_bit 8 ?u), ucast (?u AND 0xFF), ucast (drop_bit 8 ?p), ucast (?p AND 0xFF),
      ucast (drop_bit 8 ?h), ucast (?h AND 0xFF), ucast (drop_bit 8 ?f), ucast (?f AND 0xFF)]"
    using r(1) by (simp add: sample_frame_def STACKSCOPE_HEADER_def)
  moreover have "unat (stackscope_peak_usage s') = 256 * unat (ucast (drop_bit 8 ?p) :: uint8_t)
      + unat (ucast (?p AND 0xFF) :: uint8_t)"
    unfolding r(2) by (rule be16)
  moreover have "unat (if StackScope_GetSP s > StackScope_GetHeapEnd c s
               then StackScope_GetSP s - StackScope_GetHeapEnd c s else 0)
     = 256 * unat (ucast (drop_bit 8 ?f) :: uint8_t) + unat (ucast (?f AND 0xFF) :: uint8_t)"
    using be16 [of ?f] by (simp add: sample_free_def)
  ultimately show "\<exists>flags h1 l1 h2 l2 h3 l3 h4 l4.
         UDR0 s' = UDR0 s @ [0xFE, flags, h1, l1, h2, l2, h3, l3, h4, l4] \<and>
         unat (StackScope_GetPaintedUsage c s) = 256 * unat h1 + unat l1 \<and>
         unat (stackscope_peak_usage s') = 256 * unat h2 + unat l2 \<and>
         unat (StackScope_GetHeapUsage c s) = 256 * unat h3 + unat l3 \<and>
         unat (if StackScope_GetSP s > StackScope_GetHeapEnd c s
               then StackScope_GetSP s - StackScope_GetHeapEnd c s else 0)
           = 256 * unat h4 + unat l4"
    using be16 [of ?u] be16 [of ?h] by blast
qed

theorem C7_frame_layout_witness:
  "sampling atmega328p due_machine \<and> tx_live atmega328p due_machine \<and>
   (\<exists>s'. StackScope_Check atmega328p due_machine = Some s' \<and>
      UDR0 s' = [0xFE, 0x0F, 0x04, 0xF3, 0x04, 0xF3, 0x02, 0x00, 0x00, 0x0C] \<and>
      (\<exists>flags h1 l1 h2 l2 h3 l3 h4 l4.
         UDR0 s' = UDR0 due_machine @ [0xFE, flags, h1, l1, h2, l2, h3, l3, h4, l4] \<and>
         unat (StackScope_GetPaintedUsage atmega328p due_machine) = 256 * unat h1 + unat l1 \<and>
         unat (stackscope_peak_usage s') = 256 * unat h2 + unat l2 \<and>
         unat (StackScope_GetHeapUsage atmega328p due_machine) = 256 * unat h3 + unat l3 \<and>
         unat (if StackScope_GetSP due_machine > StackScope_GetHeapEnd atmega328p due_machine
               then StackScope_GetSP due_machine - StackScope_GetHeapEnd atmega328p due_machine
               else 0)
           = 256 * unat h4 + unat l4))"
proof -
  from due_machine_check obtain s'
    where ret: "StackScope_Check atmega328p due_machine = Some s'"
      and out: "UDR0 s' = [0xFE, 0x0F, 0x04, 0xF3, 0x04, 0xF3, 0x02, 0x00, 0x00, 0x0C]"
    by blast
  from C7_frame_layout [OF due_machine_facts(1)] ret out due_machine_facts(1) due_machine_live
  show ?thesis by blast
qed

section \<open>The policy flags (C2)\<close>

lemma sample_free_int:
  "uint (sample_free c s) = max 0 (uint (StackScope_GetSP s) - uint (StackScope_GetHeapEnd c s))"
proof (cases "StackScope_GetSP s > StackScope_GetHeapEnd c s")
  case True
  then have le: "uint (StackScope_GetHeapEnd c s) \<le> uint (StackScope_GetSP s)"
    unfolding word_less_def by simp
  then have "uint (StackScope_GetSP s - StackScope_GetHeapEnd c s)
      = uint (StackScope_GetSP s) - uint (StackScope_GetHeapEnd c s)"
    by (simp only: uint_sub_lem [symmetric])
  with True le show ?thesis by (simp add: sample_free_def)
next
  case False
  then have "uint (StackScope_GetSP s) \<le> uint (StackScope_GetHeapEnd c s)"
    unfolding word_less_def by simp
  with False show ?thesis by (simp add: sample_free_def)
qed

lemma collision_nat:
  assumes "unat (h :: uint16_t) + 16 < 2 ^ 16"
  shows "(sp \<le> h + 16) = (unat sp \<le> unat h + 16)"
proof -
  from assms have "unat (h + 16) = unat h + 16" by (simp add: unat_word_ariths)
  then show ?thesis by (simp add: word_le_nat_alt)
qed

lemma collision_implies_alert:
  assumes "StackScope_GetSP s \<le> StackScope_GetHeapEnd c s + 16"
    and "16 < STACKSCOPE_ALERT_THRESHOLD c"
  shows "sample_free c s < STACKSCOPE_ALERT_THRESHOLD c"
proof (cases "StackScope_GetSP s > StackScope_GetHeapEnd c s")
  case False
  then have "sample_free c s = 0" by (simp add: sample_free_def)
  moreover have "(0 :: uint16_t) < STACKSCOPE_ALERT_THRESHOLD c"
    using assms(2) by (simp add: word_less_nat_alt)
  ultimately show ?thesis by simp
next
  case True
  let ?sp = "StackScope_GetSP s" and ?h = "StackScope_GetHeapEnd c s"
  from True have lt: "unat ?h < unat ?sp" by (simp add: word_less_nat_alt)
  have "unat (?h + 16) = (unat ?h + 16) mod 65536" by (simp add: unat_word_ariths)
  moreover have "unat ?sp \<le> unat (?h + 16)" using assms(1) by (simp add: word_le_nat_alt)
  ultimately have le: "unat ?sp \<le> (unat ?h + 16) mod 65536" by simp
  have "unat ?h + 16 < 65536"
  proof (rule ccontr)
    assume "\<not> unat ?h + 16 < 65536"
    moreover have "unat ?h < 65536" by (rule unat_lt_65536)
    ultimately have "(unat ?h + 16) mod 65536 = unat ?h + 16 - 65536"
      by (simp add: mod_if)
    with le lt show False by simp
  qed
  with le have "unat ?sp \<le> unat ?h + 16" by simp
  moreover have "unat (?sp - ?h) = unat ?sp - unat ?h"
    using lt by (simp add: unat_sub word_le_nat_alt)
  ultimately have "unat (sample_free c s) \<le> 16" using True by (simp add: sample_free_def)
  moreover have "16 < unat (STACKSCOPE_ALERT_THRESHOLD c)"
    using assms(2) by (simp add: word_less_nat_alt)
  ultimately show ?thesis by (simp add: word_less_nat_alt)
qed

text \<open>
  C2. On a sampling invocation that returns, the second byte written is the flags byte.
  Bit 0 (Alert) is set iff the free memory, the maximum of 0 and stack top minus heap
  break as integers, is below \<open>STACKSCOPE_ALERT_THRESHOLD\<close> (50 by default). Bit 1 (Collision)
  is set iff the stack top is at most the heap break plus 16, the sum taken in 16 bits as
  the code computes it; whenever that sum does not overflow (as on any address below
  \<open>0xFFF0\<close>) this is the comparison of the natural numbers. Bit 3 (HeapActive) is set iff
  the heap usage is above 0. Each bit is decided by its own condition, none excludes
  another, and there is a sample in which all four bits are set (flags \<open>0x0F\<close>).
  The conditions themselves overlap: with a threshold above 16, as the default is,
  the Collision condition implies the Alert condition (\<open>collision_implies_alert\<close>).
\<close>

theorem C2_policy_flags:
  assumes "sampling c s"
  shows "(tx_live c s \<longrightarrow> (\<exists>s'. StackScope_Check c s = Some s')) \<and>
    (\<forall>s'. StackScope_Check c s = Some s' \<longrightarrow>
      (\<exists>flags rest. UDR0 s' = UDR0 s @ STACKSCOPE_HEADER # flags # rest \<and>
         (bit flags 0 \<longleftrightarrow>
            max 0 (uint (StackScope_GetSP s) - uint (StackScope_GetHeapEnd c s))
              < uint (STACKSCOPE_ALERT_THRESHOLD c)) \<and>
         (bit flags 1 \<longleftrightarrow> StackScope_GetSP s \<le> StackScope_GetHeapEnd c s + 16) \<and>
         (unat (StackScope_GetHeapEnd c s) + 16 < 2 ^ 16 \<longrightarrow>
            (bit flags 1 \<longleftrightarrow> unat (StackScope_GetSP s) \<le> unat (StackScope_GetHeapEnd c s) + 16)) \<and>
         (bit flags 3 \<longleftrightarrow> StackScope_GetHeapUsage c s > 0))) \<and>
    (\<exists>s0 s0' rest. sampling atmega328p s0 \<and> StackScope_Check atmega328p s0 = Some s0' \<and>
         UDR0 s0' = UDR0 s0 @ STACKSCOPE_HEADER # 0x0F # rest)"
proof (intro conjI allI impI)
  assume "tx_live c s"
  then show "\<exists>s'. StackScope_Check c s = Some s'" by (rule Check_live)
next
  fix s' assume ret: "StackScope_Check c s = Some s'"
  note r = Check_sampled [OF assms ret]
  let ?flags = "sample_flags c s"
  have f1: "UDR0 s' = UDR0 s @ STACKSCOPE_HEADER # ?flags # drop 2 (sample_frame c s)"
    using r(1) by (simp add: sample_frame_def)
  have "uint (sample_free c s) < uint (STACKSCOPE_ALERT_THRESHOLD c)
      \<longleftrightarrow> sample_free c s < STACKSCOPE_ALERT_THRESHOLD c"
    by (simp add: word_less_def)
  then have f2: "bit ?flags 0 \<longleftrightarrow>
      max 0 (uint (StackScope_GetSP s) - uint (StackScope_GetHeapEnd c s))
        < uint (STACKSCOPE_ALERT_THRESHOLD c)"
    unfolding sample_flags_bits(1) sample_free_int [symmetric] by simp
  have f3: "bit ?flags 1 \<longleftrightarrow> StackScope_GetSP s \<le> StackScope_GetHeapEnd c s + 16"
    by (rule sample_flags_bits(2))
  have f4: "unat (StackScope_GetHeapEnd c s) + 16 < 2 ^ 16 \<longrightarrow>
      (bit ?flags 1 \<longleftrightarrow> unat (StackScope_GetSP s) \<le> unat (StackScope_GetHeapEnd c s) + 16)"
    unfolding sample_flags_bits(2) by (rule impI) (rule collision_nat)
  have f5: "bit ?flags 3 \<longleftrightarrow> StackScope_GetHeapUsage c s > 0"
    by (rule sample_flags_bits(4))
  show "\<exists>flags rest. UDR0 s' = UDR0 s @ STACKSCOPE_HEADER # flags # rest \<and>
         (bit flags 0 \<longleftrightarrow>
            max 0 (uint (StackScope_GetSP s) - uint (StackScope_GetHeapEnd c s))
              < uint (STACKSCOPE_ALERT_THRESHOLD c)) \<and>
         (bit flags 1 \<longleftrightarrow> StackScope_GetSP s \<le> StackScope_GetHeapEnd c s + 16) \<and>
         (unat (StackScope_GetHeapEnd c s) + 16 < 2 ^ 16 \<longrightarrow>
            (bit flags 1 \<longleftrightarrow> unat (StackScope_GetSP s) \<le> unat (StackScope_GetHeapEnd c s) + 16)) \<and>
         (bit flags 3 \<longleftrightarrow> StackScope_GetHeapUsage c s > 0)"
    by (rule exI [of _ ?flags], rule exI [of _ "drop 2 (sample_frame c s)"])
       (intro conjI f1 f2 f3 f4 f5)
next
  from due_machine_check obtain s'
    where a: "StackScope_Check atmega328p due_machine = Some s'"
      and b: "UDR0 s' = [0xFE, 0x0F, 0x04, 0xF3, 0x04, 0xF3, 0x02, 0x00, 0x00, 0x0C]"
    by (elim exE conjE)
  from b have "UDR0 s' = UDR0 due_machine @ STACKSCOPE_HEADER # 0x0F #
      [0x04, 0xF3, 0x04, 0xF3, 0x02, 0x00, 0x00, 0x0C]"
    by (simp add: STACKSCOPE_HEADER_def due_machine_def)
  with due_machine_facts(1) a
  show "\<exists>s0 s0' rest. sampling atmega328p s0 \<and> StackScope_Check atmega328p s0 = Some s0' \<and>
         UDR0 s0' = UDR0 s0 @ STACKSCOPE_HEADER # 0x0F # rest"
    by (intro exI conjI)
qed

theorem C2_policy_flags_witness:
  "sampling atmega328p due_machine \<and> tx_live atmega328p due_machine \<and>
   unat (StackScope_GetHeapEnd atmega328p due_machine) + 16 < 2 ^ 16 \<and>
   max 0 (uint (StackScope_GetSP due_machine) - uint (StackScope_GetHeapEnd atmega328p due_machine))
      < uint (STACKSCOPE_ALERT_THRESHOLD atmega328p) \<and>
   unat (StackScope_GetSP due_machine) \<le> unat (StackScope_GetHeapEnd atmega328p due_machine) + 16 \<and>
   StackScope_GetHeapUsage atmega328p due_machine > 0 \<and>
   (\<exists>s' flags rest. StackScope_Check atmega328p due_machine = Some s' \<and>
      UDR0 s' = UDR0 due_machine @ STACKSCOPE_HEADER # flags # rest \<and>
      bit flags 0 \<and> bit flags 1 \<and> bit flags 3)"
proof -
  have v1: "unat (StackScope_GetHeapEnd atmega328p due_machine) + 16 < 2 ^ 16"
    by (simp add: due_machine_facts)
  have v2: "max 0 (uint (StackScope_GetSP due_machine) - uint (StackScope_GetHeapEnd atmega328p due_machine))
         < uint (STACKSCOPE_ALERT_THRESHOLD atmega328p)"
    by (simp add: due_machine_facts) (simp add: atmega328p_def)
  have v3: "unat (StackScope_GetSP due_machine) \<le> unat (StackScope_GetHeapEnd atmega328p due_machine) + 16"
    by (simp add: due_machine_facts)
  have v4: "StackScope_GetHeapUsage atmega328p due_machine > 0"
    by (simp add: due_machine_facts)
  from Check_live [OF due_machine_live] obtain s'
    where ret: "StackScope_Check atmega328p due_machine = Some s'" by (elim exE)
  note t = C2_policy_flags [OF due_machine_facts(1),
      THEN conjunct2, THEN conjunct1, rule_format, OF ret]
  from t obtain flags rest
    where o: "UDR0 s' = UDR0 due_machine @ STACKSCOPE_HEADER # flags # rest"
      and b0: "bit flags 0 \<longleftrightarrow>
            max 0 (uint (StackScope_GetSP due_machine) - uint (StackScope_GetHeapEnd atmega328p due_machine))
              < uint (STACKSCOPE_ALERT_THRESHOLD atmega328p)"
      and b1: "unat (StackScope_GetHeapEnd atmega328p due_machine) + 16 < 2 ^ 16 \<longrightarrow>
            (bit flags 1 \<longleftrightarrow> unat (StackScope_GetSP due_machine)
               \<le> unat (StackScope_GetHeapEnd atmega328p due_machine) + 16)"
      and b3: "bit flags 3 \<longleftrightarrow> StackScope_GetHeapUsage atmega328p due_machine > 0"
    by (elim exE conjE)
  have "bit flags 0" using b0 v2 by (rule iffD2)
  moreover have "bit flags 1" using b1 [rule_format, OF v1] v3 by (rule iffD2)
  moreover have "bit flags 3" using b3 v4 by (rule iffD2)
  ultimately have "\<exists>s' flags rest. StackScope_Check atmega328p due_machine = Some s' \<and>
      UDR0 s' = UDR0 due_machine @ STACKSCOPE_HEADER # flags # rest \<and>
      bit flags 0 \<and> bit flags 1 \<and> bit flags 3"
    using ret o by (intro exI conjI)
  with due_machine_facts(1) due_machine_live v1 v2 v3 v4 show ?thesis
    by (intro conjI)
qed

section \<open>The effect of one call on each field\<close>

lemma sample_peak_ge: "stackscope_peak_usage s \<le> sample_peak c s"
  by (auto simp: sample_peak_def)

lemma sample_frame_not_Nil: "sample_frame c s \<noteq> []"
  by (simp add: sample_frame_def)

lemma Check_effect:
  assumes "StackScope_Check c s = Some s'"
  shows "UCSR0A s' = UCSR0A s" and "stackscope_enabled s' = stackscope_enabled s"
    and "stackscope_painted_end s' = stackscope_painted_end s" and "mem s' = mem s"
    and "SP s' = SP s" and "brkval s' = brkval s"
    and "stackscope_peak_usage s \<le> stackscope_peak_usage s'"
    and "stackscope_call_counter s' =
          (if stackscope_enabled s = 0 then stackscope_call_counter s
           else stackscope_call_counter s + 1)"
    and "UDR0 s' \<noteq> UDR0 s \<longleftrightarrow> sampling c s"
    and "\<exists>k p n out. s' = s\<lparr>stackscope_call_counter := k, stackscope_peak_usage := p,
           reads := n, UDR0 := out\<rparr>"
proof -
  consider (off) "stackscope_enabled s = 0" "s' = s"
    | (skip) "stackscope_enabled s \<noteq> 0" "\<not> sampling c s"
        "s' = s\<lparr>stackscope_call_counter := stackscope_call_counter s + 1\<rparr>"
    | (sample) n where "stackscope_enabled s \<noteq> 0" "sampling c s"
        "s' = (sample_state c s)\<lparr>reads := n, UDR0 := UDR0 s @ sample_frame c s\<rparr>"
    using Check_Some [OF assms] by (auto split: if_splits)
  then have "UCSR0A s' = UCSR0A s \<and> stackscope_enabled s' = stackscope_enabled s
    \<and> stackscope_painted_end s' = stackscope_painted_end s \<and> mem s' = mem s
    \<and> SP s' = SP s \<and> brkval s' = brkval s
    \<and> stackscope_peak_usage s \<le> stackscope_peak_usage s'
    \<and> stackscope_call_counter s' =
          (if stackscope_enabled s = 0 then stackscope_call_counter s
           else stackscope_call_counter s + 1)
    \<and> (UDR0 s' \<noteq> UDR0 s \<longleftrightarrow> sampling c s)
    \<and> (\<exists>k p n out. s' = s\<lparr>stackscope_call_counter := k, stackscope_peak_usage := p,
           reads := n, UDR0 := out\<rparr>)"
  proof cases
    case off
    have "s = s\<lparr>stackscope_call_counter := stackscope_call_counter s,
        stackscope_peak_usage := stackscope_peak_usage s, reads := reads s, UDR0 := UDR0 s\<rparr>"
      by simp
    then have "\<exists>k p n out. s = s\<lparr>stackscope_call_counter := k, stackscope_peak_usage := p,
           reads := n, UDR0 := out\<rparr>" by blast
    with off show ?thesis by (simp add: sampling_def)
  next
    case skip
    have "s' = s\<lparr>stackscope_call_counter := stackscope_call_counter s + 1,
        stackscope_peak_usage := stackscope_peak_usage s, reads := reads s, UDR0 := UDR0 s\<rparr>"
      using skip(3) by simp
    then have "\<exists>k p n out. s' = s\<lparr>stackscope_call_counter := k, stackscope_peak_usage := p,
           reads := n, UDR0 := out\<rparr>" by blast
    with skip show ?thesis by simp
  next
    case sample
    have "s' = s\<lparr>stackscope_call_counter := stackscope_call_counter s + 1,
        stackscope_peak_usage := sample_peak c s, reads := n,
        UDR0 := UDR0 s @ sample_frame c s\<rparr>"
      using sample(3) by (simp add: sample_state_def)
    then have "\<exists>k p n out. s' = s\<lparr>stackscope_call_counter := k, stackscope_peak_usage := p,
           reads := n, UDR0 := out\<rparr>" by blast
    with sample show ?thesis
      by (simp add: sample_state_def sample_peak_ge sample_frame_not_Nil)
  qed
  then show "UCSR0A s' = UCSR0A s" and "stackscope_enabled s' = stackscope_enabled s"
    and "stackscope_painted_end s' = stackscope_painted_end s" and "mem s' = mem s"
    and "SP s' = SP s" and "brkval s' = brkval s"
    and "stackscope_peak_usage s \<le> stackscope_peak_usage s'"
    and "stackscope_call_counter s' =
          (if stackscope_enabled s = 0 then stackscope_call_counter s
           else stackscope_call_counter s + 1)"
    and "UDR0 s' \<noteq> UDR0 s \<longleftrightarrow> sampling c s"
    and "\<exists>k p n out. s' = s\<lparr>stackscope_call_counter := k, stackscope_peak_usage := p,
           reads := n, UDR0 := out\<rparr>"
    by simp_all
qed

section \<open>What the check leaves alone (C10)\<close>

text \<open>
  C10. A call of \<open>StackScope_Check\<close> that returns, in any state (disabled, enabled and not
  sampling, or sampling), leaves the enabled flag, the painted boundary and the whole data
  memory as they were: it never paints. Of the monitor's variables it may change only the
  call counter and the peak; the only other change is to the transport (the status
  reads done and the bytes written). The call returns whenever the transport keeps
  becoming ready.
\<close>

theorem C10_check_frame:
  "(tx_live c s \<longrightarrow> (\<exists>s'. StackScope_Check c s = Some s')) \<and>
   (\<forall>s'. StackScope_Check c s = Some s' \<longrightarrow>
      stackscope_enabled s' = stackscope_enabled s \<and>
      stackscope_painted_end s' = stackscope_painted_end s \<and>
      mem s' = mem s \<and>
      (\<exists>k p n out. s' = s\<lparr>stackscope_call_counter := k, stackscope_peak_usage := p,
           reads := n, UDR0 := out\<rparr>))"
proof (intro conjI allI impI)
  assume "tx_live c s"
  then show "\<exists>s'. StackScope_Check c s = Some s'" by (rule Check_live)
next
  fix s' assume ret: "StackScope_Check c s = Some s'"
  show "stackscope_enabled s' = stackscope_enabled s" by (rule Check_effect(2) [OF ret])
  show "stackscope_painted_end s' = stackscope_painted_end s" by (rule Check_effect(3) [OF ret])
  show "mem s' = mem s" by (rule Check_effect(4) [OF ret])
  show "\<exists>k p n out. s' = s\<lparr>stackscope_call_counter := k, stackscope_peak_usage := p,
           reads := n, UDR0 := out\<rparr>" by (rule Check_effect(10) [OF ret])
qed

theorem C10_check_frame_witness:
  "tx_live atmega328p due_machine \<and>
   (\<exists>s'. StackScope_Check atmega328p due_machine = Some s' \<and>
      stackscope_enabled s' = 1 \<and> stackscope_painted_end s' = 0 \<and>
      mem s' = mem due_machine \<and>
      stackscope_call_counter s' = 0x0200 \<and> stackscope_peak_usage s' = 0x04F3 \<and>
      (\<exists>k p n out. s' = due_machine\<lparr>stackscope_call_counter := k, stackscope_peak_usage := p,
           reads := n, UDR0 := out\<rparr>))"
proof -
  from due_machine_check obtain s'
    where ret: "StackScope_Check atmega328p due_machine = Some s'"
      and v: "stackscope_peak_usage s' = 0x04F3" "stackscope_call_counter s' = 0x0200"
    by (elim exE conjE)
  note t = C10_check_frame [of atmega328p due_machine, THEN conjunct2, rule_format, OF ret]
  from t have "stackscope_enabled s' = 1" "stackscope_painted_end s' = 0"
    by (simp_all add: due_machine_def)
  with t v ret have body: "StackScope_Check atmega328p due_machine = Some s' \<and>
      stackscope_enabled s' = 1 \<and> stackscope_painted_end s' = 0 \<and>
      mem s' = mem due_machine \<and>
      stackscope_call_counter s' = 0x0200 \<and> stackscope_peak_usage s' = 0x04F3 \<and>
      (\<exists>k p n out. s' = due_machine\<lparr>stackscope_call_counter := k, stackscope_peak_usage := p,
           reads := n, UDR0 := out\<rparr>)"
    by (intro conjI) simp_all
  show ?thesis
  proof (rule conjI)
    show "tx_live atmega328p due_machine" by (rule due_machine_live)
    show "\<exists>s'. StackScope_Check atmega328p due_machine = Some s' \<and>
      stackscope_enabled s' = 1 \<and> stackscope_painted_end s' = 0 \<and>
      mem s' = mem due_machine \<and>
      stackscope_call_counter s' = 0x0200 \<and> stackscope_peak_usage s' = 0x04F3 \<and>
      (\<exists>k p n out. s' = due_machine\<lparr>stackscope_call_counter := k, stackscope_peak_usage := p,
           reads := n, UDR0 := out\<rparr>)"
      by (rule exI [where x = s']) (rule body)
  qed
qed

section \<open>The empty heap (C9)\<close>

text \<open>
  C9. When \<open>__brkval\<close> is 0 (nothing was ever allocated), \<open>StackScope_GetHeapEnd\<close> returns
  the address of \<open>__heap_start\<close>, \<open>StackScope_GetHeapUsage\<close> returns exactly 0, and every
  sample taken in that state carries a heap-usage field of two zero bytes and a flags
  byte whose bit 3 (HeapActive) is clear.
\<close>

theorem C9_empty_heap:
  assumes "brkval s = 0"
  shows "StackScope_GetHeapEnd c s = heap_start c \<and> StackScope_GetHeapUsage c s = 0 \<and>
    (sampling c s \<longrightarrow>
       (tx_live c s \<longrightarrow> (\<exists>s'. StackScope_Check c s = Some s')) \<and>
       (\<forall>s'. StackScope_Check c s = Some s' \<longrightarrow>
          (\<exists>flags b2 b3 b4 b5 b8 b9.
             UDR0 s' = UDR0 s @ [STACKSCOPE_HEADER, flags, b2, b3, b4, b5, 0, 0, b8, b9] \<and>
             \<not> bit flags 3)))"
proof (intro conjI allI impI)
  show "StackScope_GetHeapEnd c s = heap_start c"
    using assms by (simp add: StackScope_GetHeapEnd_def)
  show u: "StackScope_GetHeapUsage c s = 0"
    using assms by (simp add: StackScope_GetHeapUsage_def)
  {
    assume "tx_live c s"
    then show "\<exists>s'. StackScope_Check c s = Some s'" by (rule Check_live)
  }
  fix s' assume sm: "sampling c s" and ret: "StackScope_Check c s = Some s'"
  note r = Check_sampled [OF sm ret]
  have "UDR0 s' = UDR0 s @ [STACKSCOPE_HEADER, sample_flags c s,
      ucast (drop_bit 8 (StackScope_GetPaintedUsage c s)),
      ucast (StackScope_GetPaintedUsage c s AND 0xFF),
      ucast (drop_bit 8 (sample_peak c s)), ucast (sample_peak c s AND 0xFF),
      0, 0,
      ucast (drop_bit 8 (sample_free c s)), ucast (sample_free c s AND 0xFF)]"
    using r(1) u by (simp add: sample_frame_def)
  moreover have "\<not> bit (sample_flags c s) 3"
    using u by (simp add: sample_flags_bits(4))
  ultimately show "\<exists>flags b2 b3 b4 b5 b8 b9.
             UDR0 s' = UDR0 s @ [STACKSCOPE_HEADER, flags, b2, b3, b4, b5, 0, 0, b8, b9] \<and>
             \<not> bit flags 3"
    by (intro exI conjI)
qed


theorem C9_empty_heap_witness:
  "brkval empty_heap_due = 0 \<and> sampling atmega328p empty_heap_due \<and>
   tx_live atmega328p empty_heap_due \<and>
   StackScope_GetHeapEnd atmega328p empty_heap_due = 0x0200 \<and>
   StackScope_GetHeapUsage atmega328p empty_heap_due = 0 \<and>
   (\<exists>s' flags b2 b3 b4 b5 b8 b9.
      StackScope_Check atmega328p empty_heap_due = Some s' \<and>
      UDR0 s' = UDR0 empty_heap_due @ [STACKSCOPE_HEADER, flags, b2, b3, b4, b5, 0, 0, b8, b9] \<and>
      \<not> bit flags 3)"
proof -
  have b: "brkval empty_heap_due = 0" by (simp add: empty_heap_due_def)
  have sm: "sampling atmega328p empty_heap_due"
    by (simp add: sampling_def empty_heap_due_def atmega328p_def)
  have live: "tx_live atmega328p empty_heap_due"
    by (rule tx_live_always) (simp add: atmega328p_def empty_heap_due_def)
  note t = C9_empty_heap [OF b, of atmega328p]
  from t have he: "StackScope_GetHeapEnd atmega328p empty_heap_due = 0x0200"
    by (simp add: atmega328p_def)
  from t have hu: "StackScope_GetHeapUsage atmega328p empty_heap_due = 0"
    by (elim conjE)
  have rest: "(tx_live atmega328p empty_heap_due \<longrightarrow>
      (\<exists>s'. StackScope_Check atmega328p empty_heap_due = Some s')) \<and>
     (\<forall>s'. StackScope_Check atmega328p empty_heap_due = Some s' \<longrightarrow>
          (\<exists>flags b2 b3 b4 b5 b8 b9.
             UDR0 s' = UDR0 empty_heap_due @ [STACKSCOPE_HEADER, flags, b2, b3, b4, b5, 0, 0, b8, b9] \<and>
             \<not> bit flags 3))"
    by (rule t [THEN conjunct2, THEN conjunct2, THEN mp, OF sm])
  from rest [THEN conjunct1, THEN mp, OF live]
  obtain s' where ret: "StackScope_Check atmega328p empty_heap_due = Some s'"
    by (elim exE)
  from rest [THEN conjunct2, rule_format, OF ret] obtain flags b2 b3 b4 b5 b8 b9
    where out: "UDR0 s' = UDR0 empty_heap_due @ [STACKSCOPE_HEADER, flags, b2, b3, b4, b5, 0, 0, b8, b9]"
      and nb: "\<not> bit flags 3"
    by (elim exE conjE)
  have "\<exists>s' flags b2 b3 b4 b5 b8 b9.
      StackScope_Check atmega328p empty_heap_due = Some s' \<and>
      UDR0 s' = UDR0 empty_heap_due @ [STACKSCOPE_HEADER, flags, b2, b3, b4, b5, 0, 0, b8, b9] \<and>
      \<not> bit flags 3"
    using ret out nb by (intro exI conjI)
  with b sm live he hu show ?thesis by (intro conjI)
qed

section \<open>Painting twice, and invariants of runs\<close>

lemma PaintStack_fields [simp]:
  "stackscope_enabled (StackScope_PaintStack c s) = stackscope_enabled s"
  "stackscope_call_counter (StackScope_PaintStack c s) = stackscope_call_counter s"
  "stackscope_peak_usage (StackScope_PaintStack c s) = stackscope_peak_usage s"
  "SP (StackScope_PaintStack c s) = SP s"
  "brkval (StackScope_PaintStack c s) = brkval s"
  "UCSR0A (StackScope_PaintStack c s) = UCSR0A s"
  "reads (StackScope_PaintStack c s) = reads s"
  "UDR0 (StackScope_PaintStack c s) = UDR0 s"
  by (simp_all add: PaintStack_eq)

lemma PaintStack_enabled_commute:
  "StackScope_PaintStack c (s\<lparr>stackscope_enabled := e\<rparr>)
     = (StackScope_PaintStack c s)\<lparr>stackscope_enabled := e\<rparr>"
  by (simp add: PaintStack_eq StackScope_GetHeapEnd_def cong: if_cong)

lemma PaintStack_idem:
  "StackScope_PaintStack c (StackScope_PaintStack c s) = StackScope_PaintStack c s"
proof (cases "StackScope_GetHeapEnd c s < SP s - 32")
  case False
  then show ?thesis by (simp add: PaintStack_eq)
next
  case True
  let ?s1 = "s\<lparr>mem := (\<lambda>a. if StackScope_GetHeapEnd c s \<le> a \<and> a < SP s - 32
                          then STACKSCOPE_PAINT_PATTERN else mem s a),
             stackscope_painted_end := SP s - 32\<rparr>"
  have 1: "StackScope_PaintStack c s = ?s1" using True by (simp add: PaintStack_eq)
  have h: "StackScope_GetHeapEnd c ?s1 = StackScope_GetHeapEnd c s"
    by (simp add: StackScope_GetHeapEnd_def)
  have "StackScope_PaintStack c ?s1 = ?s1"
    unfolding PaintStack_eq [of c ?s1] h using True by (simp add: fun_eq_iff)
  with 1 show ?thesis by simp
qed

lemma TriggerHandshake_eq:
  "StackScope_TriggerHandshake c s = (StackScope_PaintStack c s)\<lparr>stackscope_enabled := 1\<rparr>"
  by (simp add: StackScope_TriggerHandshake_def PaintStack_enabled_commute)

lemma TriggerHandshake_idem:
  "StackScope_TriggerHandshake c (StackScope_TriggerHandshake c s) = StackScope_TriggerHandshake c s"
  by (simp add: TriggerHandshake_eq PaintStack_enabled_commute PaintStack_idem)

text \<open>
  The painter fills \<open>[paint_start, paint_end)\<close> and the scanner starts at \<open>paint_end\<close>
  itself, a byte the painter did not write: unless that byte happens to hold the sentinel
  already, a scan right after a paint stops at once and reports \<open>RAMEND - paint_end\<close>.
\<close>

lemma scan_after_paint:
  assumes "StackScope_GetHeapEnd c s < SP s - 32"
    and "mem s (SP s - 32) \<noteq> STACKSCOPE_PAINT_PATTERN"
  shows "StackScope_GetPaintedUsage c (StackScope_PaintStack c s) = RAMEND c - (SP s - 32)"
proof -
  let ?e = "SP s - 32"
  let ?s1 = "StackScope_PaintStack c s"
  have ne: "?e \<noteq> 0" using assms(1) by (auto simp: word_less_nat_alt)
  have pe: "stackscope_painted_end ?s1 = ?e" using assms(1) by (simp add: PaintStack_eq)
  have m: "mem ?s1 ?e = mem s ?e" using assms(1) by (simp add: PaintStack_eq)
  have h: "StackScope_GetHeapEnd c ?s1 = StackScope_GetHeapEnd c s"
    by (simp add: StackScope_GetHeapEnd_def)
  have "scan_loop ?e (StackScope_GetHeapEnd c s) (mem ?s1) = ?e"
    using assms m by (subst scan_loop.simps) simp
  then show ?thesis using ne pe h by (simp add: StackScope_GetPaintedUsage_def)
qed

lemma tx_live_cong: "UCSR0A s' = UCSR0A s \<Longrightarrow> tx_live c s' = tx_live c s"
  by (simp add: tx_live_def)

lemma step_effect:
  assumes "step c e s = Some s'"
  shows "UCSR0A s' = UCSR0A s"
    and "stackscope_enabled s \<noteq> 0 \<Longrightarrow> stackscope_enabled s' \<noteq> 0"
    and "e \<noteq> Call_ResetPeak \<Longrightarrow> stackscope_peak_usage s \<le> stackscope_peak_usage s'"
    and "stackscope_call_counter s' =
          (if e = Call_Check \<and> stackscope_enabled s \<noteq> 0 then stackscope_call_counter s + 1
           else stackscope_call_counter s)"
    and "UDR0 s' \<noteq> UDR0 s \<longleftrightarrow> e = Call_Check \<and> sampling c s"
proof -
  have "UCSR0A s' = UCSR0A s \<and>
    (stackscope_enabled s \<noteq> 0 \<longrightarrow> stackscope_enabled s' \<noteq> 0) \<and>
    (e \<noteq> Call_ResetPeak \<longrightarrow> stackscope_peak_usage s \<le> stackscope_peak_usage s') \<and>
    stackscope_call_counter s' =
          (if e = Call_Check \<and> stackscope_enabled s \<noteq> 0 then stackscope_call_counter s + 1
           else stackscope_call_counter s) \<and>
    (UDR0 s' \<noteq> UDR0 s \<longleftrightarrow> e = Call_Check \<and> sampling c s)"
  proof (cases e)
    case Call_Check
    with assms have ret: "StackScope_Check c s = Some s'" by simp
    show ?thesis using Check_effect(1,2,7,8,9) [OF ret] Call_Check by simp
  next
    case Call_TriggerHandshake
    with assms have "s' = StackScope_TriggerHandshake c s" by simp
    with Call_TriggerHandshake show ?thesis by (simp add: TriggerHandshake_eq)
  next
    case Call_ResetPeak
    with assms have "s' = StackScope_ResetPeak s" by simp
    with Call_ResetPeak show ?thesis by (simp add: StackScope_ResetPeak_def)
  next
    case (Host sp brk m)
    with assms have "s' = s\<lparr>SP := sp, brkval := brk, mem := m\<rparr>" by simp
    with Host show ?thesis by simp
  qed
  then show "UCSR0A s' = UCSR0A s"
    and "stackscope_enabled s \<noteq> 0 \<Longrightarrow> stackscope_enabled s' \<noteq> 0"
    and "e \<noteq> Call_ResetPeak \<Longrightarrow> stackscope_peak_usage s \<le> stackscope_peak_usage s'"
    and "stackscope_call_counter s' =
          (if e = Call_Check \<and> stackscope_enabled s \<noteq> 0 then stackscope_call_counter s + 1
           else stackscope_call_counter s)"
    and "UDR0 s' \<noteq> UDR0 s \<longleftrightarrow> e = Call_Check \<and> sampling c s"
    by simp_all
qed

lemma step_live: "tx_live c s \<Longrightarrow> \<exists>s'. step c e s = Some s'"
  by (cases e) (simp_all add: Check_live)

lemma run_live: "tx_live c s \<Longrightarrow> \<exists>s'. run c es s = Some s'"
proof (induction es arbitrary: s)
  case Nil
  show ?case by simp
next
  case (Cons e es)
  from step_live [OF Cons.prems, where e = e] obtain s1 where s1: "step c e s = Some s1" by (elim exE)
  have "tx_live c s1" using tx_live_cong [OF step_effect(1) [OF s1]] Cons.prems by simp
  from Cons.IH [OF this] s1 show ?case by simp
qed

lemma run_enabled:
  "stackscope_enabled s \<noteq> 0 \<Longrightarrow> run c es s = Some s' \<Longrightarrow> stackscope_enabled s' \<noteq> 0"
proof (induction es arbitrary: s)
  case Nil
  then show ?case by simp
next
  case (Cons e es)
  from Cons.prems(2) obtain s1 where s1: "step c e s = Some s1" and r: "run c es s1 = Some s'"
    by (auto split: option.splits)
  from step_effect(2) [OF s1 Cons.prems(1)] r show ?case by (rule Cons.IH)
qed

lemma run_peak_mono:
  "Call_ResetPeak \<notin> set es \<Longrightarrow> run c es s = Some s' \<Longrightarrow>
   stackscope_peak_usage s \<le> stackscope_peak_usage s'"
proof (induction es arbitrary: s)
  case Nil
  then show ?case by simp
next
  case (Cons e es)
  from Cons.prems(2) obtain s1 where s1: "step c e s = Some s1" and r: "run c es s1 = Some s'"
    by (auto split: option.splits)
  from Cons.prems(1) have ne: "e \<noteq> Call_ResetPeak" and rest: "Call_ResetPeak \<notin> set es"
    by auto
  from step_effect(3) [OF s1 ne] Cons.IH [OF rest r] show ?case by (rule order_trans)
qed

lemma run_disabled:
  assumes "stackscope_enabled s = 0" "Call_TriggerHandshake \<notin> set es" "Call_ResetPeak \<notin> set es"
  shows "frames_sent c es s = Some 0 \<and>
    (\<exists>s'. run c es s = Some s' \<and> stackscope_enabled s' = 0 \<and>
       stackscope_call_counter s' = stackscope_call_counter s \<and>
       stackscope_peak_usage s' = stackscope_peak_usage s \<and>
       stackscope_painted_end s' = stackscope_painted_end s \<and>
       UDR0 s' = UDR0 s \<and> reads s' = reads s)"
  using assms
proof (induction es arbitrary: s)
  case Nil
  then show ?case by simp
next
  case (Cons e es)
  from Cons.prems have rest: "Call_TriggerHandshake \<notin> set es" "Call_ResetPeak \<notin> set es"
    and e: "e \<noteq> Call_TriggerHandshake" "e \<noteq> Call_ResetPeak"
    by auto
  show ?case
  proof (cases e)
    case Call_Check
    have "step c e s = Some s" using Call_Check Cons.prems(1) by (simp add: Check_disabled)
    with Cons.IH [OF Cons.prems(1) rest] show ?thesis by simp
  next
    case (Host sp brk m)
    let ?s1 = "s\<lparr>SP := sp, brkval := brk, mem := m\<rparr>"
    have st: "step c e s = Some ?s1" using Host by simp
    have "stackscope_enabled ?s1 = 0" using Cons.prems(1) by simp
    from Cons.IH [OF this rest] st show ?thesis by simp
  next
    case Call_TriggerHandshake
    with e show ?thesis by simp
  next
    case Call_ResetPeak
    with e show ?thesis by simp
  qed
qed

lemma run_replicate_disabled:
  "stackscope_enabled s = 0 \<Longrightarrow>
   run c (replicate n Call_Check) s = Some s \<and> frames_sent c (replicate n Call_Check) s = Some 0"
  by (induction n) (simp_all add: Check_disabled)

section \<open>The disabled monitor (C4)\<close>

text \<open>
  C4. While \<open>stackscope_enabled\<close> is 0, a call of \<open>StackScope_Check\<close> returns the state it
  was given, whatever the transport does; so do any number of calls in a row, none of
  which writes to the transport. With host code running between the calls (and neither
  the handshake nor a peak reset), the run returns with the monitor still disabled, the
  call counter, the peak, the painted boundary, the bytes written and the status reads
  all as they were, and no call has transmitted.
\<close>

theorem C4_disabled_noop:
  assumes "stackscope_enabled s = 0"
  shows "StackScope_Check c s = Some s \<and>
    run c (replicate n Call_Check) s = Some s \<and>
    frames_sent c (replicate n Call_Check) s = Some 0 \<and>
    (Call_TriggerHandshake \<notin> set es \<and> Call_ResetPeak \<notin> set es \<longrightarrow>
       frames_sent c es s = Some 0 \<and>
       (\<exists>s'. run c es s = Some s' \<and> stackscope_enabled s' = 0 \<and>
          stackscope_call_counter s' = stackscope_call_counter s \<and>
          stackscope_peak_usage s' = stackscope_peak_usage s \<and>
          stackscope_painted_end s' = stackscope_painted_end s \<and>
          UDR0 s' = UDR0 s \<and> reads s' = reads s))"
  using Check_disabled [OF assms] run_replicate_disabled [OF assms] run_disabled [OF assms]
  by (intro conjI impI) simp_all

theorem C4_disabled_noop_witness:
  "stackscope_enabled fresh_machine = 0 \<and>
   StackScope_Check atmega328p fresh_machine = Some fresh_machine \<and>
   run atmega328p (replicate 1000 Call_Check) fresh_machine = Some fresh_machine \<and>
   frames_sent atmega328p (replicate 1000 Call_Check) fresh_machine = Some 0 \<and>
   frames_sent atmega328p [Call_Check, Host 0x0800 0x0300 (\<lambda>a. 1), Call_Check] fresh_machine = Some 0 \<and>
   (\<exists>s'. run atmega328p [Call_Check, Host 0x0800 0x0300 (\<lambda>a. 1), Call_Check] fresh_machine = Some s' \<and>
      stackscope_enabled s' = 0 \<and> stackscope_call_counter s' = 0 \<and>
      stackscope_peak_usage s' = 0 \<and> stackscope_painted_end s' = 0 \<and>
      UDR0 s' = [] \<and> reads s' = 0)"
proof -
  have off: "stackscope_enabled fresh_machine = 0" by (simp add: fresh_machine_def)
  have v: "stackscope_call_counter fresh_machine = 0" "stackscope_peak_usage fresh_machine = 0"
    "stackscope_painted_end fresh_machine = 0" "UDR0 fresh_machine = []" "reads fresh_machine = 0"
    by (simp_all add: fresh_machine_def)
  have ev: "Call_TriggerHandshake \<notin> set [Call_Check, Host 0x0800 0x0300 (\<lambda>a. 1), Call_Check] \<and>
      Call_ResetPeak \<notin> set [Call_Check, Host 0x0800 0x0300 (\<lambda>a. 1), Call_Check]"
    by simp
  note t = C4_disabled_noop [OF off, of atmega328p 1000
      "[Call_Check, Host 0x0800 0x0300 (\<lambda>a. 1), Call_Check]"]
  note t1 = t [THEN conjunct1]
  note t2 = t [THEN conjunct2, THEN conjunct1]
  note t3 = t [THEN conjunct2, THEN conjunct2, THEN conjunct1]
  note t4 = t [THEN conjunct2, THEN conjunct2, THEN conjunct2, THEN mp, OF ev, unfolded v]
  from off t1 t2 t3 t4 show ?thesis by (intro conjI) (elim conjE, assumption)+
qed

section \<open>The peak tracker (C5)\<close>

text \<open>
  C5. Across any run of events without \<open>StackScope_ResetPeak\<close> (calls of the check at any
  stack depths, heap breaks and memory contents set by the host in between, handshakes),
  the final peak is at least the initial one, and the run returns whenever the transport
  keeps becoming ready. \<open>StackScope_ResetPeak\<close> sets the peak to 0. On a sampling
  invocation that returns, bit 2 (PeakNew) of the flags byte is set iff the current usage
  is above the stored peak, and the peak afterwards is the current usage in that case and
  the old peak otherwise.
\<close>

theorem C5_peak_monotone:
  "(Call_ResetPeak \<notin> set es \<longrightarrow>
      (tx_live c s \<longrightarrow> (\<exists>s'. run c es s = Some s')) \<and>
      (\<forall>s'. run c es s = Some s' \<longrightarrow> stackscope_peak_usage s \<le> stackscope_peak_usage s')) \<and>
   stackscope_peak_usage (StackScope_ResetPeak s) = 0 \<and>
   (sampling c s \<longrightarrow>
      (\<forall>s'. StackScope_Check c s = Some s' \<longrightarrow>
         (\<exists>flags rest. UDR0 s' = UDR0 s @ STACKSCOPE_HEADER # flags # rest \<and>
            (bit flags 2 \<longleftrightarrow> StackScope_GetPaintedUsage c s > stackscope_peak_usage s) \<and>
            stackscope_peak_usage s' =
              (if StackScope_GetPaintedUsage c s > stackscope_peak_usage s
               then StackScope_GetPaintedUsage c s else stackscope_peak_usage s))))"
proof (intro conjI allI impI)
  assume "tx_live c s"
  then show "\<exists>s'. run c es s = Some s'" by (rule run_live)
next
  fix s' assume "Call_ResetPeak \<notin> set es" "run c es s = Some s'"
  then show "stackscope_peak_usage s \<le> stackscope_peak_usage s'" by (rule run_peak_mono)
next
  show "stackscope_peak_usage (StackScope_ResetPeak s) = 0"
    by (simp add: StackScope_ResetPeak_def)
next
  fix s' assume sm: "sampling c s" and ret: "StackScope_Check c s = Some s'"
  note r = Check_sampled [OF sm ret]
  have f1: "UDR0 s' = UDR0 s @ STACKSCOPE_HEADER # sample_flags c s # drop 2 (sample_frame c s)"
    using r(1) by (simp add: sample_frame_def)
  have f2: "bit (sample_flags c s) 2 \<longleftrightarrow> StackScope_GetPaintedUsage c s > stackscope_peak_usage s"
    by (rule sample_flags_bits(3))
  have f3: "stackscope_peak_usage s' =
              (if StackScope_GetPaintedUsage c s > stackscope_peak_usage s
               then StackScope_GetPaintedUsage c s else stackscope_peak_usage s)"
    using r(2) by (simp add: sample_peak_def)
  show "\<exists>flags rest. UDR0 s' = UDR0 s @ STACKSCOPE_HEADER # flags # rest \<and>
            (bit flags 2 \<longleftrightarrow> StackScope_GetPaintedUsage c s > stackscope_peak_usage s) \<and>
            stackscope_peak_usage s' =
              (if StackScope_GetPaintedUsage c s > stackscope_peak_usage s
               then StackScope_GetPaintedUsage c s else stackscope_peak_usage s)"
    by (rule exI [of _ "sample_flags c s"], rule exI [of _ "drop 2 (sample_frame c s)"])
       (intro conjI f1 f2 f3)
qed

theorem C5_peak_monotone_witness:
  "Call_ResetPeak \<notin> set [Call_Check, Host 0x0800 0x0300 (\<lambda>a. 1), Call_TriggerHandshake, Call_Check] \<and>
   tx_live atmega328p due_machine \<and> sampling atmega328p due_machine \<and>
   (\<exists>s'. run atmega328p
           [Call_Check, Host 0x0800 0x0300 (\<lambda>a. 1), Call_TriggerHandshake, Call_Check]
           due_machine = Some s' \<and>
         stackscope_peak_usage due_machine \<le> stackscope_peak_usage s') \<and>
   stackscope_peak_usage (StackScope_ResetPeak due_machine) = 0 \<and>
   (\<exists>s' flags rest. StackScope_Check atmega328p due_machine = Some s' \<and>
      UDR0 s' = UDR0 due_machine @ STACKSCOPE_HEADER # flags # rest \<and>
      bit flags 2 \<and> stackscope_peak_usage s' = 0x04F3)"
proof -
  let ?es = "[Call_Check, Host 0x0800 0x0300 (\<lambda>a. 1), Call_TriggerHandshake, Call_Check]"
  have ev: "Call_ResetPeak \<notin> set ?es" by simp
  note t = C5_peak_monotone [of ?es atmega328p due_machine]
  note seq = t [THEN conjunct1, THEN mp, OF ev]
  from seq [THEN conjunct1, THEN mp, OF due_machine_live]
  obtain s1 where r1: "run atmega328p ?es due_machine = Some s1" by (elim exE)
  have m1: "stackscope_peak_usage due_machine \<le> stackscope_peak_usage s1"
    by (rule seq [THEN conjunct2, rule_format, OF r1])
  have p1: "\<exists>s'. run atmega328p ?es due_machine = Some s' \<and>
         stackscope_peak_usage due_machine \<le> stackscope_peak_usage s'"
    using r1 m1 by (intro exI conjI)
  have p2: "stackscope_peak_usage (StackScope_ResetPeak due_machine) = 0"
    by (rule t [THEN conjunct2, THEN conjunct1])
  from Check_live [OF due_machine_live] obtain s2
    where r2: "StackScope_Check atmega328p due_machine = Some s2" by (elim exE)
  from t [THEN conjunct2, THEN conjunct2, THEN mp, OF due_machine_facts(1), rule_format, OF r2]
  obtain flags rest
    where o: "UDR0 s2 = UDR0 due_machine @ STACKSCOPE_HEADER # flags # rest"
      and b: "bit flags 2 \<longleftrightarrow>
          StackScope_GetPaintedUsage atmega328p due_machine > stackscope_peak_usage due_machine"
      and p: "stackscope_peak_usage s2 =
              (if StackScope_GetPaintedUsage atmega328p due_machine > stackscope_peak_usage due_machine
               then StackScope_GetPaintedUsage atmega328p due_machine
               else stackscope_peak_usage due_machine)"
    by (elim exE conjE)
  have gt: "StackScope_GetPaintedUsage atmega328p due_machine > stackscope_peak_usage due_machine"
    by (simp add: due_machine_facts(2)) (simp add: due_machine_def)
  have "bit flags 2" using b gt by (rule iffD2)
  moreover have "stackscope_peak_usage s2 = 0x04F3"
    using p gt by (simp add: due_machine_facts(2))
  ultimately have p3: "\<exists>s' flags rest. StackScope_Check atmega328p due_machine = Some s' \<and>
      UDR0 s' = UDR0 due_machine @ STACKSCOPE_HEADER # flags # rest \<and>
      bit flags 2 \<and> stackscope_peak_usage s' = 0x04F3"
    using r2 o by (intro exI conjI)
  from ev due_machine_live due_machine_facts(1) p1 p2 p3 show ?thesis by (intro conjI)
qed

section \<open>The handshake (C8)\<close>

text \<open>
  C8. \<open>StackScope_TriggerHandshake\<close> is \<open>StackScope_PaintStack\<close> followed by setting the
  enabled flag to 1: it leaves the peak and the call counter alone, and triggering twice
  gives the same state as triggering once (the repaint writes the same bytes and the same
  boundary). \<open>StackScope_IsHandshakeByte\<close> is non-zero exactly on \<open>0xA5\<close>. No run of
  \<open>StackScope_Check\<close>, \<open>StackScope_TriggerHandshake\<close>, \<open>StackScope_ResetPeak\<close> and host code
  that starts enabled ends disabled, and every such run returns whenever the transport
  keeps becoming ready.
\<close>

theorem C8_handshake:
  "StackScope_TriggerHandshake c s = (StackScope_PaintStack c s)\<lparr>stackscope_enabled := 1\<rparr> \<and>
   stackscope_enabled (StackScope_TriggerHandshake c s) = 1 \<and>
   stackscope_peak_usage (StackScope_TriggerHandshake c s) = stackscope_peak_usage s \<and>
   stackscope_call_counter (StackScope_TriggerHandshake c s) = stackscope_call_counter s \<and>
   StackScope_TriggerHandshake c (StackScope_TriggerHandshake c s) = StackScope_TriggerHandshake c s \<and>
   (StackScope_IsHandshakeByte b \<noteq> 0 \<longleftrightarrow> b = 0xA5) \<and>
   (tx_live c s \<longrightarrow> (\<exists>s'. run c es s = Some s')) \<and>
   (\<forall>s'. stackscope_enabled s \<noteq> 0 \<and> run c es s = Some s' \<longrightarrow> stackscope_enabled s' \<noteq> 0)"
proof (intro conjI allI impI)
  show "StackScope_TriggerHandshake c s = (StackScope_PaintStack c s)\<lparr>stackscope_enabled := 1\<rparr>"
    by (rule TriggerHandshake_eq)
  show "stackscope_enabled (StackScope_TriggerHandshake c s) = 1"
    "stackscope_peak_usage (StackScope_TriggerHandshake c s) = stackscope_peak_usage s"
    "stackscope_call_counter (StackScope_TriggerHandshake c s) = stackscope_call_counter s"
    by (simp_all add: TriggerHandshake_eq)
  show "StackScope_TriggerHandshake c (StackScope_TriggerHandshake c s) = StackScope_TriggerHandshake c s"
    by (rule TriggerHandshake_idem)
  show "(StackScope_IsHandshakeByte b \<noteq> 0) = (b = 0xA5)"
    by (simp add: StackScope_IsHandshakeByte_def STACKSCOPE_HANDSHAKE_def)
  {
    assume "tx_live c s"
    then show "\<exists>s'. run c es s = Some s'" by (rule run_live)
  }
  fix s' assume "stackscope_enabled s \<noteq> 0 \<and> run c es s = Some s'"
  then show "stackscope_enabled s' \<noteq> 0" using run_enabled by blast
qed


theorem C8_handshake_witness:
  "tx_live atmega328p due_machine \<and> stackscope_enabled due_machine \<noteq> 0 \<and>
   (\<exists>s'. run atmega328p
           [Call_Check, Call_ResetPeak, Call_TriggerHandshake, Host 0x0800 0x0300 (\<lambda>a. 1), Call_Check]
           due_machine = Some s' \<and>
         stackscope_enabled s' \<noteq> 0) \<and>
   stackscope_enabled (StackScope_TriggerHandshake atmega328p fresh_machine) = 1 \<and>
   stackscope_painted_end (StackScope_TriggerHandshake atmega328p fresh_machine) = 0x08D0 \<and>
   stackscope_peak_usage (StackScope_TriggerHandshake atmega328p due_machine) = 0x0010 \<and>
   stackscope_call_counter (StackScope_TriggerHandshake atmega328p due_machine) = 0x01FF \<and>
   StackScope_TriggerHandshake atmega328p (StackScope_TriggerHandshake atmega328p fresh_machine)
     = StackScope_TriggerHandshake atmega328p fresh_machine \<and>
   StackScope_IsHandshakeByte 0xA5 \<noteq> 0 \<and> \<not> StackScope_IsHandshakeByte 0x5A \<noteq> 0"
proof -
  let ?es = "[Call_Check, Call_ResetPeak, Call_TriggerHandshake, Host 0x0800 0x0300 (\<lambda>a. 1), Call_Check]"
  have en: "stackscope_enabled due_machine \<noteq> 0" by (simp add: due_machine_def)
  note t = C8_handshake [of atmega328p due_machine _ ?es]
  note u = C8_handshake [of atmega328p fresh_machine _ ?es]
  from t [of 0, THEN conjunct2, THEN conjunct2, THEN conjunct2, THEN conjunct2, THEN conjunct2,
      THEN conjunct2, THEN conjunct1, THEN mp, OF due_machine_live]
  obtain s1 where r1: "run atmega328p ?es due_machine = Some s1" by (elim exE)
  have e1: "stackscope_enabled s1 \<noteq> 0"
    by (rule t [of 0, THEN conjunct2, THEN conjunct2, THEN conjunct2, THEN conjunct2,
      THEN conjunct2, THEN conjunct2, THEN conjunct2, rule_format, OF conjI [OF en r1]])
  have p1: "\<exists>s'. run atmega328p ?es due_machine = Some s' \<and> stackscope_enabled s' \<noteq> 0"
    using r1 e1 by (intro exI conjI)
  have p2: "stackscope_enabled (StackScope_TriggerHandshake atmega328p fresh_machine) = 1"
    by (rule u [of 0, THEN conjunct2, THEN conjunct1])
  have "stackscope_painted_end (StackScope_PaintStack atmega328p fresh_machine) = 0x08D0"
    by (simp add: PaintStack_eq StackScope_GetHeapEnd_def fresh_machine_def atmega328p_def)
  then have p3: "stackscope_painted_end (StackScope_TriggerHandshake atmega328p fresh_machine) = 0x08D0"
    unfolding u [of 0, THEN conjunct1] by simp
  have p4: "stackscope_peak_usage (StackScope_TriggerHandshake atmega328p due_machine) = 0x0010"
    unfolding t [of 0, THEN conjunct2, THEN conjunct2, THEN conjunct1]
    by (simp add: due_machine_def)
  have p5: "stackscope_call_counter (StackScope_TriggerHandshake atmega328p due_machine) = 0x01FF"
    unfolding t [of 0, THEN conjunct2, THEN conjunct2, THEN conjunct2, THEN conjunct1]
    by (simp add: due_machine_def)
  have p6: "StackScope_TriggerHandshake atmega328p (StackScope_TriggerHandshake atmega328p fresh_machine)
     = StackScope_TriggerHandshake atmega328p fresh_machine"
    by (rule u [of 0, THEN conjunct2, THEN conjunct2, THEN conjunct2, THEN conjunct2, THEN conjunct1])
  have p7: "StackScope_IsHandshakeByte 0xA5 \<noteq> 0"
    using C8_handshake [of atmega328p due_machine "0xA5" ?es, THEN conjunct2, THEN conjunct2, THEN conjunct2, THEN conjunct2,
      THEN conjunct2, THEN conjunct1] by simp
  have p8: "\<not> StackScope_IsHandshakeByte 0x5A \<noteq> 0"
    using C8_handshake [of atmega328p due_machine "0x5A" ?es, THEN conjunct2, THEN conjunct2, THEN conjunct2, THEN conjunct2,
      THEN conjunct2, THEN conjunct1] by simp
  from due_machine_live en p1 p2 p3 p4 p5 p6 p7 p8 show ?thesis by (intro conjI)
qed

section \<open>The rate limiter (C3)\<close>

lemma unat_succ_mod:
  assumes "k \<le> 16"
  shows "unat ((x :: uint16_t) + 1) mod 2 ^ k = (unat x + 1) mod 2 ^ k"
proof -
  have "(2 :: nat) ^ k dvd 2 ^ 16" using assms by (rule le_imp_power_dvd)
  then have "(unat x + 1) mod 2 ^ 16 mod 2 ^ k = (unat x + 1) mod 2 ^ k"
    by (rule mod_mod_cancel)
  then show ?thesis by (simp add: unat_word_ariths)
qed

lemma sampling_iff:
  assumes "STACKSCOPE_RATE_LIMIT c = 2 ^ k" and "k \<le> 16" and "stackscope_enabled s \<noteq> 0"
  shows "sampling c s \<longleftrightarrow> (unat (stackscope_call_counter s) + 1) mod 2 ^ k = 0"
proof -
  have "sampling c s \<longleftrightarrow> (stackscope_call_counter s + 1) AND mask k = 0"
    using assms(1,3) by (simp add: sampling_def mask_eq_exp_minus_1)
  also have "\<dots> \<longleftrightarrow> 2 ^ k dvd unat (stackscope_call_counter s + 1)"
    by (simp add: and_mask_dvd_nat)
  also have "\<dots> \<longleftrightarrow> unat (stackscope_call_counter s + 1) mod 2 ^ k = 0"
    by (simp add: mod_eq_0_iff_dvd)
  also have "\<dots> \<longleftrightarrow> (unat (stackscope_call_counter s) + 1) mod 2 ^ k = 0"
    by (simp only: unat_succ_mod [OF assms(2)])
  finally show ?thesis .
qed

lemma phase_count:
  assumes "u < (r :: nat)"
  shows "(if (u + 1) mod r = 0 then 1 else 0) + ((u + 1) mod r + m) div r = (u + Suc m) div r"
proof (cases "u + 1 = r")
  case True
  then have "(u + 1) mod r = 0" by simp
  moreover have "(u + Suc m) div r = Suc (m div r)" using True assms
    by (metis Suc_eq_plus1 add_Suc_right add_Suc div_add_self1 less_nat_zero_code)
  ultimately show ?thesis by simp
next
  case False
  with assms have "u + 1 < r" by simp
  then have "(u + 1) mod r = u + 1" by simp
  then show ?thesis by simp
qed

lemma step_length:
  assumes "step c e s = Some s'"
  shows "length (UDR0 s') = length (UDR0 s) + (if UDR0 s' = UDR0 s then 0 else 10)"
proof (cases "e = Call_Check \<and> sampling c s")
  case False
  with step_effect(5) [OF assms] show ?thesis by simp
next
  case True
  then have ret: "StackScope_Check c s = Some s'" using assms by simp
  from Check_sampled(1) [OF _ ret] True have "UDR0 s' = UDR0 s @ sample_frame c s" by simp
  then show ?thesis by (simp add: sample_frame_def)
qed

lemma frames_sent_run:
  "frames_sent c es s = Some n \<Longrightarrow> \<exists>s'. run c es s = Some s' \<and>
     length (UDR0 s') = length (UDR0 s) + 10 * n"
proof (induction es arbitrary: s n)
  case Nil
  then show ?case by simp
next
  case (Cons e es)
  from Cons.prems obtain s1 n1 where s1: "step c e s = Some s1"
    and n1: "frames_sent c es s1 = Some n1"
    and n: "n = (if UDR0 s1 = UDR0 s then 0 else 1) + n1"
    by (auto split: option.splits)
  from Cons.IH [OF n1] obtain s' where r: "run c es s1 = Some s'"
    and l: "length (UDR0 s') = length (UDR0 s1) + 10 * n1" by (elim exE conjE)
  have "run c (e # es) s = Some s'" using s1 r by simp
  moreover have "length (UDR0 s') = length (UDR0 s) + 10 * n"
    using l step_length [OF s1] n by simp
  ultimately show ?case by (intro exI conjI)
qed

lemma frames_sent_live: "tx_live c s \<Longrightarrow> \<exists>n. frames_sent c es s = Some n"
proof (induction es arbitrary: s)
  case Nil
  show ?case by simp
next
  case (Cons e es)
  from step_live [OF Cons.prems, where e = e] obtain s1 where s1: "step c e s = Some s1"
    by (elim exE)
  have "tx_live c s1" using tx_live_cong [OF step_effect(1) [OF s1]] Cons.prems by simp
  from Cons.IH [OF this] obtain n1 where "frames_sent c es s1 = Some n1" by (elim exE)
  with s1 show ?case by simp
qed

lemma frames_sent_count:
  assumes "STACKSCOPE_RATE_LIMIT c = 2 ^ k" and "k \<le> 16"
  shows "stackscope_enabled s \<noteq> 0 \<Longrightarrow> frames_sent c es s = Some n \<Longrightarrow>
     n = (unat (stackscope_call_counter s) mod 2 ^ k + length (filter (\<lambda>e. e = Call_Check) es))
           div 2 ^ k"
proof (induction es arbitrary: s n)
  case Nil
  then show ?case by simp
next
  case (Cons e es)
  let ?m = "length (filter (\<lambda>e. e = Call_Check) es)"
  let ?u = "unat (stackscope_call_counter s) mod 2 ^ k"
  from Cons.prems(2) obtain s1 n1 where s1: "step c e s = Some s1"
    and n1: "frames_sent c es s1 = Some n1"
    and n: "n = (if UDR0 s1 = UDR0 s then 0 else 1) + n1"
    by (auto split: option.splits)
  note eff = step_effect [OF s1]
  have en1: "stackscope_enabled s1 \<noteq> 0" by (rule eff(2) [OF Cons.prems(1)])
  have ih: "n1 = (unat (stackscope_call_counter s1) mod 2 ^ k + ?m) div 2 ^ k"
    by (rule Cons.IH [OF en1 n1])
  show ?case
  proof (cases "e = Call_Check")
    case False
    then have "stackscope_call_counter s1 = stackscope_call_counter s" "UDR0 s1 = UDR0 s"
      using eff(4,5) by simp_all
    with ih n False show ?thesis by simp
  next
    case True
    have cnt: "stackscope_call_counter s1 = stackscope_call_counter s + 1"
      using eff(4) True Cons.prems(1) by simp
    have ph: "unat (stackscope_call_counter s1) mod 2 ^ k = (?u + 1) mod 2 ^ k"
      unfolding cnt unat_succ_mod [OF assms(2)] by (simp add: mod_Suc_eq)
    have "UDR0 s1 \<noteq> UDR0 s \<longleftrightarrow> (unat (stackscope_call_counter s) + 1) mod 2 ^ k = 0"
      using eff(5) True sampling_iff [OF assms Cons.prems(1)] by simp
    also have "\<dots> \<longleftrightarrow> (?u + 1) mod 2 ^ k = 0" by (simp add: mod_Suc_eq)
    finally have tx: "UDR0 s1 \<noteq> UDR0 s \<longleftrightarrow> (?u + 1) mod 2 ^ k = 0" .
    have "?u < 2 ^ k" by simp
    from phase_count [OF this, of ?m]
    have "n = (?u + Suc ?m) div 2 ^ k"
      unfolding n ih ph using tx by (simp split: if_splits)
    with True show ?thesis by simp
  qed
qed

text \<open>
  C3. While the monitor is enabled, with \<open>STACKSCOPE_RATE_LIMIT\<close> a power of two below
  \<open>2 ^ 16\<close> (256 by default): every call of \<open>StackScope_Check\<close> that returns has incremented
  the 16-bit call counter, and it has written to the transport iff the incremented
  counter is 0 modulo the rate limit. Consequently, in any run of events that contains
  exactly rate-limit many calls of the check (256 by default; host code, handshakes and
  peak resets may come in between), from any starting value of the counter, wrap-around
  included, exactly one event transmits, and the transport receives exactly 10 bytes.
  The run returns whenever the transport keeps becoming ready.
\<close>

theorem C3_rate_limit:
  assumes "stackscope_enabled s \<noteq> 0" and "STACKSCOPE_RATE_LIMIT c = 2 ^ k" and "k < 16"
  shows "(tx_live c s \<longrightarrow> (\<exists>s'. StackScope_Check c s = Some s')) \<and>
    (\<forall>s'. StackScope_Check c s = Some s' \<longrightarrow>
       stackscope_call_counter s' = stackscope_call_counter s + 1 \<and>
       (UDR0 s' \<noteq> UDR0 s \<longleftrightarrow>
          unat (stackscope_call_counter s') mod unat (STACKSCOPE_RATE_LIMIT c) = 0)) \<and>
    (length (filter (\<lambda>e. e = Call_Check) es) = unat (STACKSCOPE_RATE_LIMIT c) \<longrightarrow>
       (tx_live c s \<longrightarrow> frames_sent c es s = Some 1) \<and>
       (\<forall>n. frames_sent c es s = Some n \<longrightarrow>
          n = 1 \<and> (\<exists>s'. run c es s = Some s' \<and> length (UDR0 s') = length (UDR0 s) + 10)))"
proof -
  have k16: "k \<le> 16" using assms(3) by simp
  have "(2 :: nat) ^ k < 2 ^ 16" using assms(3) by (rule power_strict_increasing) simp
  moreover have "unat (of_nat (2 ^ k) :: uint16_t) = 2 ^ k mod 2 ^ 16"
    by (simp only: unat_of_nat) simp
  ultimately have rl: "unat (STACKSCOPE_RATE_LIMIT c) = 2 ^ k"
    unfolding assms(2) by simp
  have one: "n = 1" if "length (filter (\<lambda>e. e = Call_Check) es) = 2 ^ k"
    and "frames_sent c es s = Some n" for n
  proof -
    have "n = (unat (stackscope_call_counter s) mod 2 ^ k + 2 ^ k) div 2 ^ k"
      using frames_sent_count [OF assms(2) k16 assms(1) that(2)] that(1) by simp
    also have "\<dots> = (unat (stackscope_call_counter s) mod 2 ^ k) div 2 ^ k + 1"
      by (rule div_add_self2) simp
    finally show ?thesis by simp
  qed
  show ?thesis
  proof (intro conjI allI impI)
    assume "tx_live c s"
    then show "\<exists>s'. StackScope_Check c s = Some s'" by (rule Check_live)
  next
    fix s' assume ret: "StackScope_Check c s = Some s'"
    show cnt: "stackscope_call_counter s' = stackscope_call_counter s + 1"
      using Check_effect(8) [OF ret] assms(1) by simp
    have "UDR0 s' \<noteq> UDR0 s \<longleftrightarrow> (unat (stackscope_call_counter s) + 1) mod 2 ^ k = 0"
      using Check_effect(9) [OF ret] sampling_iff [OF assms(2) k16 assms(1)] by simp
    then show "UDR0 s' \<noteq> UDR0 s \<longleftrightarrow>
        unat (stackscope_call_counter s') mod unat (STACKSCOPE_RATE_LIMIT c) = 0"
      unfolding rl cnt unat_succ_mod [OF k16] .
  next
    assume len: "length (filter (\<lambda>e. e = Call_Check) es) = unat (STACKSCOPE_RATE_LIMIT c)"
      and "tx_live c s"
    from frames_sent_live [OF this(2), where es = es] obtain n where n: "frames_sent c es s = Some n"
      by (elim exE)
    with one [OF len [unfolded rl] n] show "frames_sent c es s = Some 1" by simp
  next
    fix n
    assume len: "length (filter (\<lambda>e. e = Call_Check) es) = unat (STACKSCOPE_RATE_LIMIT c)"
      and n: "frames_sent c es s = Some n"
    show n1: "n = 1" by (rule one [OF len [unfolded rl] n])
    from frames_sent_run [OF n] n1
    show "\<exists>s'. run c es s = Some s' \<and> length (UDR0 s') = length (UDR0 s) + 10"
      by simp
  qed
qed

theorem C3_rate_limit_witness:
  "stackscope_enabled wrap_machine \<noteq> 0 \<and> STACKSCOPE_RATE_LIMIT atmega328p = 2 ^ 8 \<and>
   (8 :: nat) < 16 \<and> tx_live atmega328p wrap_machine \<and>
   length (filter (\<lambda>e. e = Call_Check) (replicate 256 Call_Check))
     = unat (STACKSCOPE_RATE_LIMIT atmega328p) \<and>
   frames_sent atmega328p (replicate 256 Call_Check) wrap_machine = Some 1 \<and>
   (\<exists>s'. run atmega328p (replicate 256 Call_Check) wrap_machine = Some s' \<and>
      length (UDR0 s') = length (UDR0 wrap_machine) + 10) \<and>
   (\<exists>s'. StackScope_Check atmega328p wrap_machine = Some s' \<and>
      stackscope_call_counter s' = 0xFF81 \<and> UDR0 s' = UDR0 wrap_machine)"
proof -
  let ?es = "replicate 256 Call_Check"
  have en: "stackscope_enabled wrap_machine \<noteq> 0" by (simp add: wrap_machine_def)
  have rl: "STACKSCOPE_RATE_LIMIT atmega328p = 2 ^ 8" by (simp add: atmega328p_def)
  have k: "(8 :: nat) < 16" by simp
  have live: "tx_live atmega328p wrap_machine"
    by (rule tx_live_always) (simp add: atmega328p_def wrap_machine_def)
  have len: "length (filter (\<lambda>e. e = Call_Check) ?es) = unat (STACKSCOPE_RATE_LIMIT atmega328p)"
    by (simp add: atmega328p_def)
  note t = C3_rate_limit [OF en rl k, of ?es]
  note seq = t [THEN conjunct2, THEN conjunct2, THEN mp, OF len]
  have f: "frames_sent atmega328p ?es wrap_machine = Some 1"
    by (rule seq [THEN conjunct1, THEN mp, OF live])
  have r: "\<exists>s'. run atmega328p ?es wrap_machine = Some s' \<and>
      length (UDR0 s') = length (UDR0 wrap_machine) + 10"
    by (rule seq [THEN conjunct2, rule_format, OF f, THEN conjunct2])
  from t [THEN conjunct1, THEN mp, OF live] obtain s1
    where r1: "StackScope_Check atmega328p wrap_machine = Some s1" by (elim exE)
  note one = t [THEN conjunct2, THEN conjunct1, rule_format, OF r1]
  have c1: "stackscope_call_counter s1 = 0xFF81"
    using one [THEN conjunct1] by (simp add: wrap_machine_def)
  have "UDR0 s1 = UDR0 wrap_machine"
    using one [THEN conjunct2] unfolding c1 by (simp add: atmega328p_def)
  with r1 c1 have s: "\<exists>s'. StackScope_Check atmega328p wrap_machine = Some s' \<and>
      stackscope_call_counter s' = 0xFF81 \<and> UDR0 s' = UDR0 wrap_machine"
    by (intro exI conjI)
  from en rl k live len f r s show ?thesis by (intro conjI)
qed

end
